theory Spec2Isabelle
  imports Main "HOL-Library.Word"
begin

section \<open>The limiter state store (rate_limiter.go)\<close>

text \<open>
  Go's \<^verbatim>\<open>int\<close> is a signed machine integer; on the 64-bit targets it has 64 bits.
  It is modelled as a 64-bit word read through \<open>sint\<close>, so that \<open>+\<close> and \<open>-\<close> wrap
  around exactly as the compiled code does, and every comparison of the source is a
  comparison of the signed values. \<^verbatim>\<open>time.Duration\<close> is an \<^verbatim>\<open>int64\<close>.
\<close>

type_synonym go_int = "64 word"

type_synonym Duration = "64 word"

datatype go_panic = Panic string

text \<open>
  The struct \<^verbatim>\<open>RateLimiter\<close>. The field \<^verbatim>\<open>Mutex\<close> has no counterpart here: every
  method body below runs between \<^verbatim>\<open>Lock\<close> and the deferred \<^verbatim>\<open>Unlock\<close>, so each call
  is one atomic step on the record. The lock itself is modelled in the section on
  concurrent workers.
\<close>

record RateLimiter =
  Requests :: "string \<rightharpoonup> go_int"
  MaxRequests :: go_int
  WindowDuration :: Duration

text \<open>Reading a Go map at a key: the zero value when the key is absent.\<close>

definition map_index :: "(string \<rightharpoonup> go_int) \<Rightarrow> string \<Rightarrow> go_int" where
  "map_index m k = (case m k of None \<Rightarrow> 0 | Some v \<Rightarrow> v)"

text \<open>
  \<^verbatim>\<open>startResetTicker\<close> first calls \<^verbatim>\<open>time.NewTicker(rl.WindowDuration)\<close> in the calling
  goroutine; the standard library panics there when the duration is not positive.
  Then it spawns the goroutine whose loop body, run once per tick under the lock, is
  \<open>resetTick\<close>: the assignment \<^verbatim>\<open>rl.Requests = make(map[string]int)\<close>.
\<close>

definition startResetTicker :: "RateLimiter \<Rightarrow> go_panic + RateLimiter" where
  "startResetTicker rl =
     (if sint (WindowDuration rl) \<le> 0
      then Inl (Panic ''non-positive interval for NewTicker'')
      else Inr rl)"

definition resetTick :: "RateLimiter \<Rightarrow> RateLimiter" where
  "resetTick rl = rl\<lparr>Requests := Map.empty\<rparr>"

definition NewRateLimiter :: "go_int \<Rightarrow> Duration \<Rightarrow> go_panic + RateLimiter" where
  "NewRateLimiter maxRequests windowDuration =
     startResetTicker
       \<lparr>Requests = Map.empty, MaxRequests = maxRequests, WindowDuration = windowDuration\<rparr>"

definition AllowRequest :: "RateLimiter \<Rightarrow> string \<Rightarrow> bool \<times> RateLimiter" where
  "AllowRequest rl ip =
     (let currentCount = map_index (Requests rl) ip in
      if sint (MaxRequests rl) \<le> sint currentCount then (False, rl)
      else (True, rl\<lparr>Requests := (Requests rl)(ip \<mapsto> currentCount + 1)\<rparr>))"

text \<open>
  \<^verbatim>\<open>GetRemainingRequests\<close> contains no assignment to the limiter, so it is a function
  of the state alone.
\<close>

definition GetRemainingRequests :: "RateLimiter \<Rightarrow> string \<Rightarrow> go_int" where
  "GetRemainingRequests rl ip =
     (let currentCount = map_index (Requests rl) ip;
          remaining = MaxRequests rl - currentCount
      in if sint remaining < 0 then 0 else remaining)"

subsection \<open>Sequences of calls\<close>

text \<open>
  \<open>AllowRequest_times n rl ip\<close> is \<open>n\<close> successive calls \<^verbatim>\<open>rl.AllowRequest(ip)\<close> with
  nothing in between: it returns the results in call order and the final state.
\<close>

fun AllowRequest_times :: "nat \<Rightarrow> RateLimiter \<Rightarrow> string \<Rightarrow> bool list \<times> RateLimiter" where
  "AllowRequest_times 0 rl ip = ([], rl)"
| "AllowRequest_times (Suc n) rl ip =
     (case AllowRequest rl ip of (b, rl') \<Rightarrow>
        (case AllowRequest_times n rl' ip of (bs, rl'') \<Rightarrow> (b # bs, rl'')))"

text \<open>
  The steps that change a limiter after its construction: a call of \<^verbatim>\<open>AllowRequest\<close>,
  a call of \<^verbatim>\<open>GetRemainingRequests\<close>, and a tick of the reset goroutine. The mutex
  serialises them, so a history of the limiter is a list of such steps.
\<close>

datatype limiter_op = OpAllow string | OpRemaining string | OpReset

fun apply_op :: "RateLimiter \<Rightarrow> limiter_op \<Rightarrow> RateLimiter" where
  "apply_op rl (OpAllow ip) = snd (AllowRequest rl ip)"
| "apply_op rl (OpRemaining ip) = rl"
| "apply_op rl OpReset = resetTick rl"

fun run_ops :: "RateLimiter \<Rightarrow> limiter_op list \<Rightarrow> RateLimiter" where
  "run_ops rl [] = rl"
| "run_ops rl (x # xs) = run_ops (apply_op rl x) xs"

text \<open>The invariant of the counter table: every stored count lies between 1 and the limit.\<close>

definition counts_in_range :: "RateLimiter \<Rightarrow> bool" where
  "counts_in_range rl \<longleftrightarrow>
     (\<forall>k v. Requests rl k = Some v \<longrightarrow> 1 \<le> sint v \<and> sint v \<le> sint (MaxRequests rl))"

section \<open>The admission gate (middleware.go)\<close>

subsection \<open>The library functions that \<^verbatim>\<open>getClientIP\<close> calls\<close>

text \<open>
  A Go string is a sequence of bytes, here a \<open>string\<close>, whose characters are bytes.
  \<open>byte_of\<close> reads a byte as a number.
\<close>

definition byte_of :: "char \<Rightarrow> nat" where
  "byte_of c = of_char c"

definition isLower :: "char \<Rightarrow> bool" where
  "isLower c \<longleftrightarrow> 97 \<le> byte_of c \<and> byte_of c \<le> 122"

definition isUpper :: "char \<Rightarrow> bool" where
  "isUpper c \<longleftrightarrow> 65 \<le> byte_of c \<and> byte_of c \<le> 90"

definition isDigit :: "char \<Rightarrow> bool" where
  "isDigit c \<longleftrightarrow> 48 \<le> byte_of c \<and> byte_of c \<le> 57"

text \<open>
  \<^verbatim>\<open>textproto.validHeaderFieldByte\<close>: letters, digits and the bytes
  \<^verbatim>\<open>! # $ % & ' * + - . ^ _ ` | ~\<close>.
\<close>

definition validHeaderFieldByte :: "char \<Rightarrow> bool" where
  "validHeaderFieldByte c \<longleftrightarrow>
     isDigit c \<or> isLower c \<or> isUpper c \<or>
     byte_of c \<in> set [33, 35, 36, 37, 38, 39, 42, 43, 45, 46, 94, 95, 96, 124, 126]"

text \<open>
  The loop of \<^verbatim>\<open>textproto.canonicalMIMEHeaderKey\<close>: upper case for the first letter and
  for a letter after a dash, lower case for the others.
\<close>

fun canonical_loop :: "bool \<Rightarrow> string \<Rightarrow> string" where
  "canonical_loop upper [] = []"
| "canonical_loop upper (c # cs) =
     (let c' = (if upper \<and> isLower c then char_of (byte_of c - 32)
                else if \<not> upper \<and> isUpper c then char_of (byte_of c + 32)
                else c)
      in c' # canonical_loop (c' = CHR ''-'') cs)"

text \<open>
  \<^verbatim>\<open>textproto.CanonicalMIMEHeaderKey\<close> returns a key that holds a byte outside the
  header field bytes (a space also) as it is, and the canonical form of every other key.
\<close>

definition CanonicalMIMEHeaderKey :: "string \<Rightarrow> string" where
  "CanonicalMIMEHeaderKey s =
     (if list_all validHeaderFieldByte s then canonical_loop True s else s)"

text \<open>
  \<^verbatim>\<open>http.Header\<close> is a \<^verbatim>\<open>map[string][]string\<close>; \<^verbatim>\<open>Header.Get\<close> returns the first value
  stored under the canonical form of the key, and the empty string when there is none.
\<close>

type_synonym Header = "string \<rightharpoonup> string list"

definition Header_Get :: "Header \<Rightarrow> string \<Rightarrow> string" where
  "Header_Get h key =
     (case h (CanonicalMIMEHeaderKey key) of
        None \<Rightarrow> []
      | Some vs \<Rightarrow> (case vs of [] \<Rightarrow> [] | v # _ \<Rightarrow> v))"

text \<open>
  \<^verbatim>\<open>strings.Split\<close> for a separator of one byte, which is how the source calls it: the
  pieces between the separators, in order; never an empty list.
\<close>

fun strings_Split :: "string \<Rightarrow> char \<Rightarrow> string list" where
  "strings_Split [] sep = [[]]"
| "strings_Split (c # cs) sep =
     (if c = sep then [] # strings_Split cs sep
      else (case strings_Split cs sep of
              [] \<Rightarrow> [[c]]
            | piece # pieces \<Rightarrow> (c # piece) # pieces))"

text \<open>
  \<^verbatim>\<open>strings.LastIndex\<close> for a substring of one byte: the loop runs from the last index
  down and returns the first index it finds, and -1 when there is none.
\<close>

fun LastIndex_below :: "string \<Rightarrow> char \<Rightarrow> nat \<Rightarrow> int" where
  "LastIndex_below s c 0 = - 1"
| "LastIndex_below s c (Suc i) = (if s ! i = c then int i else LastIndex_below s c i)"

definition strings_LastIndex :: "string \<Rightarrow> char \<Rightarrow> int" where
  "strings_LastIndex s c = LastIndex_below s c (length s)"

text \<open>
  \<^verbatim>\<open>strings.TrimSpace\<close> removes the leading and the trailing white space, as
  \<^verbatim>\<open>unicode.IsSpace\<close> defines it, from UTF-8 text. \<open>space_encodings\<close> lists the UTF-8
  encodings of the white space code points: U+0009 to U+000D, U+0020, U+0085, U+00A0,
  U+1680, U+2000 to U+200A, U+2028, U+2029, U+202F, U+205F and U+3000. Every encoding
  starts with a byte that starts a rune and continues with continuation bytes, so the
  first rune of a string is white space exactly when one of them is a prefix, and the
  last rune is white space exactly when one of them is a suffix.
\<close>

definition space_encodings :: "nat list list" where
  "space_encodings =
     [[0x09], [0x0A], [0x0B], [0x0C], [0x0D], [0x20],
      [0xC2, 0x85], [0xC2, 0xA0],
      [0xE1, 0x9A, 0x80],
      [0xE2, 0x80, 0x80], [0xE2, 0x80, 0x81], [0xE2, 0x80, 0x82], [0xE2, 0x80, 0x83],
      [0xE2, 0x80, 0x84], [0xE2, 0x80, 0x85], [0xE2, 0x80, 0x86], [0xE2, 0x80, 0x87],
      [0xE2, 0x80, 0x88], [0xE2, 0x80, 0x89], [0xE2, 0x80, 0x8A],
      [0xE2, 0x80, 0xA8], [0xE2, 0x80, 0xA9], [0xE2, 0x80, 0xAF],
      [0xE2, 0x81, 0x9F],
      [0xE3, 0x80, 0x80]]"

text \<open>The width in bytes of the white space at the start of the bytes, 0 when there is none.\<close>

definition space_width :: "nat list list \<Rightarrow> nat list \<Rightarrow> nat" where
  "space_width encodings bs =
     (case find (\<lambda>e. take (length e) bs = e) encodings of
        None \<Rightarrow> 0
      | Some e \<Rightarrow> length e)"

fun trim_start :: "nat list list \<Rightarrow> string \<Rightarrow> string" where
  "trim_start encodings [] = []"
| "trim_start encodings (c # cs) =
     (let w = space_width encodings (map byte_of (c # cs))
      in if w = 0 then c # cs else trim_start encodings (drop (w - 1) cs))"

definition strings_TrimSpace :: "string \<Rightarrow> string" where
  "strings_TrimSpace s =
     rev (trim_start (map rev space_encodings) (rev (trim_start space_encodings s)))"

subsection \<open>Requests and the client address\<close>

record Request =
  Method :: string
  Header :: Header
  RemoteAddr :: string

definition getClientIP :: "Request \<Rightarrow> string" where
  "getClientIP r =
     (let forwarded = Header_Get (Header r) ''X-Forwarded-For'';
          ips = strings_Split forwarded (CHR '','')
      in if forwarded \<noteq> [] \<and> 0 < length ips then strings_TrimSpace (ips ! 0)
         else
           (let realIP = Header_Get (Header r) ''X-Real-IP''
            in if realIP \<noteq> [] then strings_TrimSpace realIP
               else
                 (let ip = RemoteAddr r;
                      idx = strings_LastIndex ip (CHR '':'')
                  in if idx \<noteq> - 1 then take (nat idx) ip else ip)))"

subsection \<open>The middleware\<close>

text \<open>
  A handler acts on its \<^verbatim>\<open>http.ResponseWriter\<close> only through method calls, so the
  writer is the list of the calls made on it so far, in order. \<open>Encode\<close> stands for
  \<^verbatim>\<open>json.NewEncoder(w).Encode(v)\<close> with \<open>v\<close> a \<^verbatim>\<open>map[string]string\<close>, given by its entries.
\<close>

datatype writer_call =
    Header_Set string string
  | WriteHeader int
  | Encode "(string \<times> string) list"

type_synonym ResponseWriter = "writer_call list"

definition StatusTooManyRequests :: int where
  "StatusTooManyRequests = 429"

text \<open>
  An \<^verbatim>\<open>http.HandlerFunc\<close> receives the writer and the request, and may change the writer
  and whatever state \<open>'s\<close> the handler itself can reach.
\<close>

type_synonym 's HandlerFunc = "ResponseWriter \<Rightarrow> Request \<Rightarrow> 's \<Rightarrow> ResponseWriter \<times> 's"

text \<open>
  \<^verbatim>\<open>RateLimitMiddleware(limiter)(next)\<close> is again a handler. The limiter it was given
  as a pointer is part of the state it can reach, beside the state of \<open>next\<close>; the
  handler \<open>next\<close> of this program does not hold the limiter.
\<close>

definition RateLimitMiddleware :: "'s HandlerFunc \<Rightarrow> (RateLimiter \<times> 's) HandlerFunc" where
  "RateLimitMiddleware next w r =
     (\<lambda>(limiter, s).
        let ip = getClientIP r in
        case AllowRequest limiter ip of (allowed, limiter') \<Rightarrow>
          if \<not> allowed then
            (w @ [Header_Set ''Content-Type'' ''application/json'',
                  WriteHeader StatusTooManyRequests,
                  Encode [(''error'', ''Rate limit exceeded'')]],
             (limiter', s))
          else
            (case next w r s of (w', s') \<Rightarrow> (w', (limiter', s'))))"

text \<open>A continuation that does nothing but record each invocation with its arguments.\<close>

definition recording_handler :: "((ResponseWriter \<times> Request) list) HandlerFunc" where
  "recording_handler w r calls = (w, calls @ [(w, r)])"

section \<open>Concurrent workers calling \<^verbatim>\<open>AllowRequest\<close>\<close>

text \<open>
  The statements of \<^verbatim>\<open>AllowRequest\<close>, one control point for each: the worker waits at
  \<^verbatim>\<open>rl.Mutex.Lock()\<close>; reads \<^verbatim>\<open>currentCount := rl.Requests[ip]\<close>; compares it with
  \<^verbatim>\<open>rl.MaxRequests\<close>; either writes \<^verbatim>\<open>rl.Requests[ip] = currentCount + 1\<close> or not;
  runs the deferred \<^verbatim>\<open>rl.Mutex.Unlock()\<close> with the result to return; and has returned.
  The local variable \<^verbatim>\<open>currentCount\<close> lives in the control point.
\<close>

datatype pc =
    AtLock
  | AtRead
  | AtCheck go_int
  | AtWrite go_int
  | AtUnlock bool
  | Returned bool

text \<open>
  The shared memory is the limiter and the state of its mutex; every worker has its
  own control point. The accesses to the table are all made under the lock, so the
  program has no data race and its executions are the interleavings of the statements.
\<close>

record system =
  shared_limiter :: RateLimiter
  mutex_held :: bool
  workers :: "pc list"

text \<open>
  One statement of worker \<open>i\<close>. \<^verbatim>\<open>Lock\<close> proceeds only when the mutex is free; a worker
  that is blocked there, or has returned, or does not exist, leaves the system as it is.
\<close>

definition worker_step :: "string \<Rightarrow> nat \<Rightarrow> system \<Rightarrow> system" where
  "worker_step ip i sys =
     (if i < length (workers sys) then
        (case workers sys ! i of
           AtLock \<Rightarrow>
             if mutex_held sys then sys
             else sys\<lparr>mutex_held := True, workers := (workers sys)[i := AtRead]\<rparr>
         | AtRead \<Rightarrow>
             sys\<lparr>workers := (workers sys)[i := AtCheck (map_index (Requests (shared_limiter sys)) ip)]\<rparr>
         | AtCheck currentCount \<Rightarrow>
             if sint (MaxRequests (shared_limiter sys)) \<le> sint currentCount
             then sys\<lparr>workers := (workers sys)[i := AtUnlock False]\<rparr>
             else sys\<lparr>workers := (workers sys)[i := AtWrite currentCount]\<rparr>
         | AtWrite currentCount \<Rightarrow>
             sys\<lparr>shared_limiter := (shared_limiter sys)
                     \<lparr>Requests := (Requests (shared_limiter sys))(ip \<mapsto> currentCount + 1)\<rparr>,
                  workers := (workers sys)[i := AtUnlock True]\<rparr>
         | AtUnlock result \<Rightarrow>
             sys\<lparr>mutex_held := False, workers := (workers sys)[i := Returned result]\<rparr>
         | Returned result \<Rightarrow> sys)
      else sys)"

text \<open>
  A schedule names, step by step, the worker that the scheduler lets run next.
\<close>

fun run_schedule :: "string \<Rightarrow> nat list \<Rightarrow> system \<Rightarrow> system" where
  "run_schedule ip [] sys = sys"
| "run_schedule ip (i # schedule) sys = run_schedule ip schedule (worker_step ip i sys)"

text \<open>\<open>n\<close> workers, each about to call \<^verbatim>\<open>rl.AllowRequest(ip)\<close>, and a free mutex.\<close>

definition start_workers :: "RateLimiter \<Rightarrow> nat \<Rightarrow> system" where
  "start_workers rl n = \<lparr>shared_limiter = rl, mutex_held = False, workers = replicate n AtLock\<rparr>"

fun has_returned :: "pc \<Rightarrow> bool" where
  "has_returned (Returned result) = True"
| "has_returned _ = False"

definition all_returned :: "system \<Rightarrow> bool" where
  "all_returned sys \<longleftrightarrow> list_all has_returned (workers sys)"

text \<open>The number of workers whose call returned the given result.\<close>

definition returned_count :: "bool \<Rightarrow> system \<Rightarrow> nat" where
  "returned_count result sys = length (filter (\<lambda>p. p = Returned result) (workers sys))"

text \<open>The control points between \<^verbatim>\<open>Lock\<close> and \<^verbatim>\<open>Unlock\<close>, and those after a decision.\<close>

fun in_critical :: "pc \<Rightarrow> bool" where
  "in_critical AtLock = False"
| "in_critical (Returned result) = False"
| "in_critical _ = True"

fun accepted :: "pc \<Rightarrow> bool" where
  "accepted (AtUnlock result) = result"
| "accepted (Returned result) = result"
| "accepted _ = False"

fun rejected :: "pc \<Rightarrow> bool" where
  "rejected (AtUnlock result) = (\<not> result)"
| "rejected (Returned result) = (\<not> result)"
| "rejected _ = False"

text \<open>The statements a worker still has to run.\<close>

fun remaining_steps :: "pc \<Rightarrow> nat" where
  "remaining_steps AtLock = 5"
| "remaining_steps AtRead = 4"
| "remaining_steps (AtCheck c) = 3"
| "remaining_steps (AtWrite c) = 2"
| "remaining_steps (AtUnlock result) = 1"
| "remaining_steps (Returned result) = 0"

text \<open>The statements that the workers of a system still have to run, all together.\<close>

definition steps_left :: "system \<Rightarrow> nat" where
  "steps_left sys = sum_list (map remaining_steps (workers sys))"

text \<open>
  The invariant of the interleaved executions that start with count 0: at most one
  worker is between \<^verbatim>\<open>Lock\<close> and \<^verbatim>\<open>Unlock\<close>, and the mutex is held exactly when there
  is one; the stored count is the number of accepted calls; a count that a worker has
  read is still the stored count; the count does not exceed the limit; and a call is
  rejected only when the count has reached the limit.
\<close>

definition workers_inv :: "string \<Rightarrow> system \<Rightarrow> bool" where
  "workers_inv ip sys \<longleftrightarrow>
     (\<forall>i < length (workers sys). \<forall>j < length (workers sys).
         in_critical (workers sys ! i) \<and> in_critical (workers sys ! j) \<longrightarrow> i = j) \<and>
     (mutex_held sys \<longleftrightarrow> (\<exists>i < length (workers sys). in_critical (workers sys ! i))) \<and>
     sint (map_index (Requests (shared_limiter sys)) ip) = int (length (filter accepted (workers sys))) \<and>
     (\<forall>i < length (workers sys). \<forall>v.
         (workers sys ! i = AtCheck v \<longrightarrow> v = map_index (Requests (shared_limiter sys)) ip) \<and>
         (workers sys ! i = AtWrite v \<longrightarrow>
            v = map_index (Requests (shared_limiter sys)) ip \<and> sint v < sint (MaxRequests (shared_limiter sys)))) \<and>
     sint (map_index (Requests (shared_limiter sys)) ip) \<le> sint (MaxRequests (shared_limiter sys)) \<and>
     ((\<exists>i < length (workers sys). rejected (workers sys ! i)) \<longrightarrow>
        sint (MaxRequests (shared_limiter sys)) \<le> sint (map_index (Requests (shared_limiter sys)) ip))"

section \<open>Properties of the limiter\<close>

subsection \<open>Signed arithmetic without wrap-around\<close>

lemma sint_succ_below:
  fixes c m :: go_int
  assumes "sint c < sint m"
  shows "sint (c + 1) = sint c + 1"
  using assms sint_lt [of m] sint_ge [of c]
  by (simp add: sint_word_ariths signed_take_bit_int_eq_self)

lemma sint_diff_nonneg:
  fixes c m :: go_int
  assumes "0 \<le> sint c" and "0 \<le> sint m"
  shows "sint (m - c) = sint m - sint c"
  using assms sint_lt [of m] sint_lt [of c]
  by (simp add: sint_word_ariths signed_take_bit_int_eq_self)

subsection \<open>Single calls and sequences of calls\<close>

lemma AllowRequest_reject:
  "sint (MaxRequests rl) \<le> sint (map_index (Requests rl) ip) \<Longrightarrow> AllowRequest rl ip = (False, rl)"
  by (simp add: AllowRequest_def)

lemma AllowRequest_accept:
  "sint (map_index (Requests rl) ip) < sint (MaxRequests rl) \<Longrightarrow>
   AllowRequest rl ip = (True, rl\<lparr>Requests := (Requests rl)(ip \<mapsto> map_index (Requests rl) ip + 1)\<rparr>)"
  by (simp add: AllowRequest_def)

lemma AllowRequest_MaxRequests [simp]: "MaxRequests (snd (AllowRequest rl ip)) = MaxRequests rl"
  by (simp add: AllowRequest_def Let_def)

lemma AllowRequest_WindowDuration [simp]: "WindowDuration (snd (AllowRequest rl ip)) = WindowDuration rl"
  by (simp add: AllowRequest_def Let_def)

lemma AllowRequest_other:
  "ip' \<noteq> ip \<Longrightarrow> Requests (snd (AllowRequest rl ip)) ip' = Requests rl ip'"
  by (simp add: AllowRequest_def Let_def)

lemma AllowRequest_times_snd_Suc:
  "snd (AllowRequest_times (Suc n) rl ip) = snd (AllowRequest_times n (snd (AllowRequest rl ip)) ip)"
  by (simp split: prod.splits)

lemma AllowRequest_times_fst_Suc:
  "fst (AllowRequest_times (Suc n) rl ip) =
     fst (AllowRequest rl ip) # fst (AllowRequest_times n (snd (AllowRequest rl ip)) ip)"
  by (simp split: prod.splits)

lemma AllowRequest_times_MaxRequests [simp]:
  "MaxRequests (snd (AllowRequest_times n rl ip)) = MaxRequests rl"
  by (induction n arbitrary: rl) (simp_all add: AllowRequest_times_snd_Suc del: AllowRequest_times.simps(2))

lemma AllowRequest_times_WindowDuration [simp]:
  "WindowDuration (snd (AllowRequest_times n rl ip)) = WindowDuration rl"
  by (induction n arbitrary: rl) (simp_all add: AllowRequest_times_snd_Suc del: AllowRequest_times.simps(2))

lemma AllowRequest_times_other:
  "ip' \<noteq> ip \<Longrightarrow> Requests (snd (AllowRequest_times n rl ip)) ip' = Requests rl ip'"
  by (induction n arbitrary: rl)
     (simp_all add: AllowRequest_times_snd_Suc AllowRequest_other del: AllowRequest_times.simps(2))

lemma AllowRequest_accept_count:
  assumes "sint (map_index (Requests rl) ip) < sint (MaxRequests rl)"
  shows "sint (map_index (Requests (snd (AllowRequest rl ip))) ip)
           = sint (map_index (Requests rl) ip) + 1"
  using sint_succ_below [OF assms] assms
  by (simp add: AllowRequest_def Let_def map_index_def)

lemma AllowRequest_times_below:
  "sint (map_index (Requests rl) ip) + int n \<le> sint (MaxRequests rl) \<Longrightarrow>
   fst (AllowRequest_times n rl ip) = replicate n True \<and>
   sint (map_index (Requests (snd (AllowRequest_times n rl ip))) ip)
     = sint (map_index (Requests rl) ip) + int n"
proof (induction n arbitrary: rl)
  case 0
  then show ?case by simp
next
  case (Suc n)
  define rl' where "rl' = snd (AllowRequest rl ip)"
  from Suc.prems have lt: "sint (map_index (Requests rl) ip) < sint (MaxRequests rl)" by simp
  then have acc: "fst (AllowRequest rl ip) = True" by (simp add: AllowRequest_accept)
  have cnt: "sint (map_index (Requests rl') ip) = sint (map_index (Requests rl) ip) + 1"
    unfolding rl'_def using lt by (rule AllowRequest_accept_count)
  have "MaxRequests rl' = MaxRequests rl" by (simp add: rl'_def)
  with cnt Suc.prems have "sint (map_index (Requests rl') ip) + int n \<le> sint (MaxRequests rl')"
    by simp
  from Suc.IH [OF this] have
    "fst (AllowRequest_times n rl' ip) = replicate n True"
    "sint (map_index (Requests (snd (AllowRequest_times n rl' ip))) ip)
       = sint (map_index (Requests rl') ip) + int n"
    by simp_all
  with cnt acc show ?case
    unfolding AllowRequest_times_snd_Suc AllowRequest_times_fst_Suc rl'_def [symmetric]
    by simp
qed

lemma GetRemainingRequests_nonneg: "0 \<le> sint (GetRemainingRequests rl ip)"
  by (simp add: GetRemainingRequests_def Let_def)

lemma GetRemainingRequests_in_range:
  assumes "0 \<le> sint (map_index (Requests rl) ip)"
    and "sint (map_index (Requests rl) ip) \<le> sint (MaxRequests rl)"
  shows "sint (GetRemainingRequests rl ip) = sint (MaxRequests rl) - sint (map_index (Requests rl) ip)"
proof -
  have "sint (MaxRequests rl - map_index (Requests rl) ip)
          = sint (MaxRequests rl) - sint (map_index (Requests rl) ip)"
    using assms by (intro sint_diff_nonneg) auto
  with assms show ?thesis by (simp add: GetRemainingRequests_def Let_def)
qed


lemma AllowRequest_times_add:
  "AllowRequest_times (n + m) rl ip =
     (fst (AllowRequest_times n rl ip) @ fst (AllowRequest_times m (snd (AllowRequest_times n rl ip)) ip),
      snd (AllowRequest_times m (snd (AllowRequest_times n rl ip)) ip))"
  by (induction n arbitrary: rl) (simp_all split: prod.splits)

lemma AllowRequest_times_exhausted:
  "sint (MaxRequests rl) \<le> sint (map_index (Requests rl) ip) \<Longrightarrow>
   AllowRequest_times n rl ip = (replicate n False, rl)"
  by (induction n) (simp_all add: AllowRequest_reject)

lemma AllowRequest_times_from_zero:
  assumes zero: "map_index (Requests rl) ip = 0" and nonneg: "0 \<le> sint (MaxRequests rl)"
  shows "fst (AllowRequest_times (nat (sint (MaxRequests rl)) + m) rl ip)
           = replicate (nat (sint (MaxRequests rl))) True @ replicate m False"
proof -
  let ?L = "nat (sint (MaxRequests rl))"
  let ?rl' = "snd (AllowRequest_times ?L rl ip)"
  have "sint (map_index (Requests rl) ip) + int ?L \<le> sint (MaxRequests rl)"
    using zero nonneg by simp
  from AllowRequest_times_below [OF this] zero nonneg
  have first: "fst (AllowRequest_times ?L rl ip) = replicate ?L True"
    and cnt: "sint (map_index (Requests ?rl') ip) = sint (MaxRequests rl)"
    by simp_all
  from cnt have "sint (MaxRequests ?rl') \<le> sint (map_index (Requests ?rl') ip)" by simp
  then have "AllowRequest_times m ?rl' ip = (replicate m False, ?rl')"
    by (rule AllowRequest_times_exhausted)
  with first show ?thesis by (simp add: AllowRequest_times_add)
qed

text \<open>
  Claim C1. In every limiter state and for every identifier, \<open>AllowRequest\<close> reads the
  count of the identifier, which is 0 when the identifier is absent. If the count has
  reached \<open>MaxRequests\<close> the call returns false and the state is unchanged. Otherwise
  the call returns true and stores the count plus one, and the stored signed value is
  exactly one larger (the addition does not wrap). Hence, starting a window with count 0
  and a limit \<open>L \<ge> 0\<close>, the first \<open>L\<close> calls return true and call \<open>L + 1\<close> and every
  later call return false.
\<close>

theorem AllowRequest_check_and_increment:
  "(Requests rl ip = None \<longrightarrow> map_index (Requests rl) ip = 0) \<and>
   (sint (MaxRequests rl) \<le> sint (map_index (Requests rl) ip) \<longrightarrow>
      AllowRequest rl ip = (False, rl)) \<and>
   (sint (map_index (Requests rl) ip) < sint (MaxRequests rl) \<longrightarrow>
      AllowRequest rl ip
        = (True, rl\<lparr>Requests := (Requests rl)(ip \<mapsto> map_index (Requests rl) ip + 1)\<rparr>) \<and>
      sint (map_index (Requests (snd (AllowRequest rl ip))) ip)
        = sint (map_index (Requests rl) ip) + 1) \<and>
   (map_index (Requests rl) ip = 0 \<and> 0 \<le> sint (MaxRequests rl) \<longrightarrow>
      fst (AllowRequest_times (nat (sint (MaxRequests rl)) + m) rl ip)
        = replicate (nat (sint (MaxRequests rl))) True @ replicate m False)"
  using AllowRequest_reject [of rl ip] AllowRequest_accept [of rl ip]
    AllowRequest_accept_count [of rl ip] AllowRequest_times_from_zero [of rl ip m]
  by (simp add: map_index_def)

theorem AllowRequest_check_and_increment_witness:
  "Requests \<lparr>Requests = Map.empty, MaxRequests = 2, WindowDuration = 60000000000\<rparr> ''10.0.0.1'' = None \<and>
   sint (MaxRequests \<lparr>Requests = [''10.0.0.1'' \<mapsto> 2], MaxRequests = 2, WindowDuration = 60000000000\<rparr>)
     \<le> sint (map_index (Requests \<lparr>Requests = [''10.0.0.1'' \<mapsto> 2], MaxRequests = 2, WindowDuration = 60000000000\<rparr>) ''10.0.0.1'') \<and>
   AllowRequest \<lparr>Requests = [''10.0.0.1'' \<mapsto> 2], MaxRequests = 2, WindowDuration = 60000000000\<rparr> ''10.0.0.1''
     = (False, \<lparr>Requests = [''10.0.0.1'' \<mapsto> 2], MaxRequests = 2, WindowDuration = 60000000000\<rparr>) \<and>
   sint (map_index (Requests \<lparr>Requests = Map.empty, MaxRequests = 2, WindowDuration = 60000000000\<rparr>) ''10.0.0.1'')
     < sint (MaxRequests \<lparr>Requests = Map.empty, MaxRequests = 2, WindowDuration = 60000000000\<rparr>) \<and>
   AllowRequest \<lparr>Requests = Map.empty, MaxRequests = 2, WindowDuration = 60000000000\<rparr> ''10.0.0.1''
     = (True, \<lparr>Requests = [''10.0.0.1'' \<mapsto> 1], MaxRequests = 2, WindowDuration = 60000000000\<rparr>) \<and>
   fst (AllowRequest_times (2 + 2) \<lparr>Requests = Map.empty, MaxRequests = 2, WindowDuration = 60000000000\<rparr> ''10.0.0.1'')
     = [True, True, False, False]"
  using AllowRequest_check_and_increment
          [of "\<lparr>Requests = Map.empty, MaxRequests = 2, WindowDuration = 60000000000\<rparr>" "''10.0.0.1''" 2]
        AllowRequest_check_and_increment
          [of "\<lparr>Requests = [''10.0.0.1'' \<mapsto> 2], MaxRequests = 2, WindowDuration = 60000000000\<rparr>" "''10.0.0.1''" 0]
  by (simp add: map_index_def AllowRequest_def Let_def eval_nat_numeral)

subsection \<open>Construction, the invariant of the table, and the remaining quota\<close>

lemma NewRateLimiter_Inr:
  "NewRateLimiter m w = Inr rl \<Longrightarrow>
   0 < sint w \<and> rl = \<lparr>Requests = Map.empty, MaxRequests = m, WindowDuration = w\<rparr>"
  by (auto simp: NewRateLimiter_def startResetTicker_def split: if_splits)

lemma NewRateLimiter_positive_window:
  "0 < sint w \<Longrightarrow>
   NewRateLimiter m w = Inr \<lparr>Requests = Map.empty, MaxRequests = m, WindowDuration = w\<rparr>"
  by (simp add: NewRateLimiter_def startResetTicker_def)

lemma NewRateLimiter_nonpositive_window:
  "sint w \<le> 0 \<Longrightarrow> NewRateLimiter m w = Inl (Panic ''non-positive interval for NewTicker'')"
  by (simp add: NewRateLimiter_def startResetTicker_def)

lemma counts_in_range_empty: "Requests rl = Map.empty \<Longrightarrow> counts_in_range rl"
  by (simp add: counts_in_range_def)

lemma map_index_in_range:
  assumes "counts_in_range rl"
  shows "0 \<le> sint (map_index (Requests rl) ip)"
    and "Requests rl ip \<noteq> None \<Longrightarrow> sint (map_index (Requests rl) ip) \<le> sint (MaxRequests rl)"
  using assms by (fastforce simp: counts_in_range_def map_index_def split: option.splits)+

lemma counts_in_range_AllowRequest:
  assumes inv: "counts_in_range rl"
  shows "counts_in_range (snd (AllowRequest rl ip))"
proof (cases "sint (MaxRequests rl) \<le> sint (map_index (Requests rl) ip)")
  case True
  with inv show ?thesis by (simp add: AllowRequest_reject)
next
  case False
  then have lt: "sint (map_index (Requests rl) ip) < sint (MaxRequests rl)" by simp
  have new: "sint (map_index (Requests rl) ip + 1) = sint (map_index (Requests rl) ip) + 1"
    using lt by (rule sint_succ_below)
  have "0 \<le> sint (map_index (Requests rl) ip)" using inv by (rule map_index_in_range)
  with new lt have "1 \<le> sint (map_index (Requests rl) ip + 1)"
    and "sint (map_index (Requests rl) ip + 1) \<le> sint (MaxRequests rl)"
    by simp_all
  with inv show ?thesis
    by (simp add: AllowRequest_accept [OF lt] counts_in_range_def)
qed

lemma counts_in_range_resetTick: "counts_in_range (resetTick rl)"
  by (simp add: counts_in_range_def resetTick_def)

lemma counts_in_range_apply_op: "counts_in_range rl \<Longrightarrow> counts_in_range (apply_op rl x)"
  by (cases x) (simp_all add: counts_in_range_AllowRequest counts_in_range_resetTick)

lemma counts_in_range_run_ops: "counts_in_range rl \<Longrightarrow> counts_in_range (run_ops rl xs)"
  by (induction xs arbitrary: rl) (simp_all add: counts_in_range_apply_op)

lemma apply_op_MaxRequests [simp]: "MaxRequests (apply_op rl x) = MaxRequests rl"
  by (cases x) (simp_all add: resetTick_def)

lemma run_ops_MaxRequests [simp]: "MaxRequests (run_ops rl xs) = MaxRequests rl"
  by (induction xs arbitrary: rl) simp_all

lemma counts_in_range_constructed:
  "NewRateLimiter m w = Inr rl0 \<Longrightarrow> counts_in_range (run_ops rl0 xs)"
  by (rule counts_in_range_run_ops, rule counts_in_range_empty) (auto dest: NewRateLimiter_Inr)

lemma GetRemainingRequests_max:
  assumes inv: "counts_in_range rl"
  shows "sint (GetRemainingRequests rl ip)
           = max 0 (sint (MaxRequests rl) - sint (map_index (Requests rl) ip))"
proof (cases "Requests rl ip")
  case None
  then show ?thesis
    by (simp add: GetRemainingRequests_def map_index_def max_def)
next
  case (Some v)
  then have "0 \<le> sint (map_index (Requests rl) ip)"
    and "sint (map_index (Requests rl) ip) \<le> sint (MaxRequests rl)"
    using map_index_in_range [OF inv, of ip] by simp_all
  then show ?thesis
    by (simp add: GetRemainingRequests_in_range)
qed

lemma AllowRequest_times_numeral:
  "AllowRequest_times (numeral k) rl ip =
     (case AllowRequest rl ip of (b, rl') \<Rightarrow>
        (case AllowRequest_times (pred_numeral k) rl' ip of (bs, rl'') \<Rightarrow> (b # bs, rl'')))"
  by (simp add: numeral_eq_Suc)

lemma GetRemainingRequests_cong:
  "Requests rl' ip = Requests rl ip \<Longrightarrow> MaxRequests rl' = MaxRequests rl \<Longrightarrow>
   GetRemainingRequests rl' ip = GetRemainingRequests rl ip"
  by (simp add: GetRemainingRequests_def map_index_def)


text \<open>
  Claim C2. Take a limiter with a positive limit, an identifier that is absent from
  the table (count 0) and a number \<open>k\<close> with \<open>1 \<le> k \<le> limit\<close>. Then \<open>k\<close> successive
  calls of \<open>AllowRequest\<close> for the identifier, with no reset in between, all return
  true, and afterwards \<open>GetRemainingRequests\<close> returns \<open>limit - k\<close>. In every state
  that a constructed limiter reaches, \<open>GetRemainingRequests\<close> returns
  \<open>max 0 (limit - count)\<close>; and in every state whatsoever its result is not negative.
\<close>

theorem GetRemainingRequests_after_k_calls:
  "(0 < sint (MaxRequests rl) \<and> Requests rl ip = None \<and> 1 \<le> k \<and> int k \<le> sint (MaxRequests rl) \<longrightarrow>
      fst (AllowRequest_times k rl ip) = replicate k True \<and>
      sint (GetRemainingRequests (snd (AllowRequest_times k rl ip)) ip)
        = sint (MaxRequests rl) - int k) \<and>
   (NewRateLimiter m w = Inr rl0 \<longrightarrow>
      sint (GetRemainingRequests (run_ops rl0 xs) ip)
        = max 0 (sint (MaxRequests rl0) - sint (map_index (Requests (run_ops rl0 xs)) ip))) \<and>
   0 \<le> sint (GetRemainingRequests rl ip)"
proof (intro conjI impI)
  assume h: "0 < sint (MaxRequests rl) \<and> Requests rl ip = None \<and> 1 \<le> k \<and> int k \<le> sint (MaxRequests rl)"
  let ?rl' = "snd (AllowRequest_times k rl ip)"
  from h have zero: "map_index (Requests rl) ip = 0" by (simp add: map_index_def)
  with h have "sint (map_index (Requests rl) ip) + int k \<le> sint (MaxRequests rl)" by simp
  from AllowRequest_times_below [OF this] zero
  have res: "fst (AllowRequest_times k rl ip) = replicate k True"
    and cnt: "sint (map_index (Requests ?rl') ip) = int k"
    by simp_all
  from res show "fst (AllowRequest_times k rl ip) = replicate k True" .
  have "sint (GetRemainingRequests ?rl' ip)
          = sint (MaxRequests ?rl') - sint (map_index (Requests ?rl') ip)"
    using cnt h by (intro GetRemainingRequests_in_range) simp_all
  with cnt show "sint (GetRemainingRequests ?rl' ip) = sint (MaxRequests rl) - int k"
    by simp
next
  assume "NewRateLimiter m w = Inr rl0"
  then have "counts_in_range (run_ops rl0 xs)" by (rule counts_in_range_constructed)
  from GetRemainingRequests_max [OF this]
  show "sint (GetRemainingRequests (run_ops rl0 xs) ip)
          = max 0 (sint (MaxRequests rl0) - sint (map_index (Requests (run_ops rl0 xs)) ip))"
    by simp
next
  show "0 \<le> sint (GetRemainingRequests rl ip)" by (rule GetRemainingRequests_nonneg)
qed



theorem GetRemainingRequests_after_k_calls_witness:
  "0 < sint (MaxRequests \<lparr>Requests = Map.empty, MaxRequests = 5, WindowDuration = 60000000000\<rparr>) \<and>
   Requests \<lparr>Requests = Map.empty, MaxRequests = 5, WindowDuration = 60000000000\<rparr> ''10.0.0.1'' = None \<and>
   (1::nat) \<le> 3 \<and>
   int 3 \<le> sint (MaxRequests \<lparr>Requests = Map.empty, MaxRequests = 5, WindowDuration = 60000000000\<rparr>) \<and>
   fst (AllowRequest_times 3 \<lparr>Requests = Map.empty, MaxRequests = 5, WindowDuration = 60000000000\<rparr> ''10.0.0.1'')
     = [True, True, True] \<and>
   sint (GetRemainingRequests
          (snd (AllowRequest_times 3 \<lparr>Requests = Map.empty, MaxRequests = 5, WindowDuration = 60000000000\<rparr> ''10.0.0.1''))
          ''10.0.0.1'') = 2 \<and>
   NewRateLimiter 5 60000000000 = Inr \<lparr>Requests = Map.empty, MaxRequests = 5, WindowDuration = 60000000000\<rparr> \<and>
   sint (GetRemainingRequests
          (run_ops \<lparr>Requests = Map.empty, MaxRequests = 5, WindowDuration = 60000000000\<rparr>
             [OpAllow ''10.0.0.1'', OpAllow ''10.0.0.1'', OpReset, OpAllow ''10.0.0.1''])
          ''10.0.0.1'') = 4"
  using GetRemainingRequests_after_k_calls
          [of "\<lparr>Requests = Map.empty, MaxRequests = 5, WindowDuration = 60000000000\<rparr>" "''10.0.0.1''" 3
              5 60000000000 "\<lparr>Requests = Map.empty, MaxRequests = 5, WindowDuration = 60000000000\<rparr>"
              "[OpAllow ''10.0.0.1'', OpAllow ''10.0.0.1'', OpReset, OpAllow ''10.0.0.1'']"]
  by (simp add: NewRateLimiter_def startResetTicker_def resetTick_def AllowRequest_def
        GetRemainingRequests_def map_index_def Let_def AllowRequest_times_numeral)

text \<open>
  Claim C4. For distinct identifiers \<open>A\<close> and \<open>B\<close>, a call of \<open>AllowRequest\<close> for \<open>A\<close>,
  accepted or rejected, leaves the table entry of \<open>B\<close>, \<open>MaxRequests\<close> and
  \<open>WindowDuration\<close> as they were; and after any number of successive calls for \<open>A\<close>,
  so also after \<open>A\<close> is exhausted, \<open>GetRemainingRequests\<close> for \<open>B\<close> returns what it
  returned before.
\<close>

theorem AllowRequest_frame:
  "A \<noteq> B \<longrightarrow>
     Requests (snd (AllowRequest rl A)) B = Requests rl B \<and>
     MaxRequests (snd (AllowRequest rl A)) = MaxRequests rl \<and>
     WindowDuration (snd (AllowRequest rl A)) = WindowDuration rl \<and>
     GetRemainingRequests (snd (AllowRequest rl A)) B = GetRemainingRequests rl B \<and>
     GetRemainingRequests (snd (AllowRequest_times n rl A)) B = GetRemainingRequests rl B"
  by (auto intro!: GetRemainingRequests_cong simp: AllowRequest_other AllowRequest_times_other)

theorem AllowRequest_frame_witness:
  "''10.0.0.1'' \<noteq> ''10.0.0.2'' \<and>
   fst (AllowRequest_times 4 \<lparr>Requests = [''10.0.0.2'' \<mapsto> 1], MaxRequests = 3, WindowDuration = 60000000000\<rparr> ''10.0.0.1'')
     = [True, True, True, False] \<and>
   Requests (snd (AllowRequest \<lparr>Requests = [''10.0.0.2'' \<mapsto> 1], MaxRequests = 3, WindowDuration = 60000000000\<rparr> ''10.0.0.1''))
     ''10.0.0.2'' = Some 1 \<and>
   GetRemainingRequests
     (snd (AllowRequest_times 4 \<lparr>Requests = [''10.0.0.2'' \<mapsto> 1], MaxRequests = 3, WindowDuration = 60000000000\<rparr> ''10.0.0.1''))
     ''10.0.0.2'' = 2"
  using AllowRequest_frame
          [of "''10.0.0.1''" "''10.0.0.2''"
              "\<lparr>Requests = [''10.0.0.2'' \<mapsto> 1], MaxRequests = 3, WindowDuration = 60000000000\<rparr>" 4]
  by (simp add: AllowRequest_def GetRemainingRequests_def map_index_def Let_def AllowRequest_times_numeral)

text \<open>
  Claim C9. Every key present in the table of a reachable limiter state holds a count
  between 1 and \<open>MaxRequests\<close>: the table is empty after construction, \<open>AllowRequest\<close>
  preserves the invariant, the reset restores the empty table,
  \<open>GetRemainingRequests\<close> changes nothing, and therefore every history of steps from
  a constructed limiter ends in a state that satisfies the invariant.
\<close>

theorem counts_in_range_invariant:
  "(NewRateLimiter m w = Inr rl0 \<longrightarrow> Requests rl0 = Map.empty \<and> counts_in_range rl0) \<and>
   (counts_in_range rl \<longrightarrow> counts_in_range (snd (AllowRequest rl ip))) \<and>
   counts_in_range (resetTick rl) \<and> Requests (resetTick rl) = Map.empty \<and>
   (counts_in_range rl \<longrightarrow> counts_in_range (apply_op rl x)) \<and>
   (NewRateLimiter m w = Inr rl0 \<longrightarrow> counts_in_range (run_ops rl0 xs)) \<and>
   (NewRateLimiter m w = Inr rl0 \<and> Requests (run_ops rl0 xs) ip = Some v \<longrightarrow>
      1 \<le> sint v \<and> sint v \<le> sint (MaxRequests (run_ops rl0 xs)))"
proof (intro conjI impI)
  assume c: "NewRateLimiter m w = Inr rl0"
  from NewRateLimiter_Inr [OF c] show "Requests rl0 = Map.empty" by simp
  then show "counts_in_range rl0" by (rule counts_in_range_empty)
  from c show "counts_in_range (run_ops rl0 xs)" by (rule counts_in_range_constructed)
next
  assume "counts_in_range rl"
  then show "counts_in_range (snd (AllowRequest rl ip))" by (rule counts_in_range_AllowRequest)
next
  show "counts_in_range (resetTick rl)" by (rule counts_in_range_resetTick)
  show "Requests (resetTick rl) = Map.empty" by (simp add: resetTick_def)
next
  assume "counts_in_range rl"
  then show "counts_in_range (apply_op rl x)" by (rule counts_in_range_apply_op)
next
  assume c: "NewRateLimiter m w = Inr rl0 \<and> Requests (run_ops rl0 xs) ip = Some v"
  then have "counts_in_range (run_ops rl0 xs)" by (blast intro: counts_in_range_constructed)
  with c show "1 \<le> sint v" and "sint v \<le> sint (MaxRequests (run_ops rl0 xs))"
    unfolding counts_in_range_def by blast+
qed

theorem counts_in_range_invariant_witness:
  "NewRateLimiter 2 60000000000
     = Inr \<lparr>Requests = Map.empty, MaxRequests = 2, WindowDuration = 60000000000\<rparr> \<and>
   counts_in_range \<lparr>Requests = [''10.0.0.1'' \<mapsto> 1], MaxRequests = 2, WindowDuration = 60000000000\<rparr> \<and>
   counts_in_range
     (snd (AllowRequest \<lparr>Requests = [''10.0.0.1'' \<mapsto> 1], MaxRequests = 2, WindowDuration = 60000000000\<rparr>
             ''10.0.0.1'')) \<and>
   counts_in_range
     (apply_op \<lparr>Requests = [''10.0.0.1'' \<mapsto> 1], MaxRequests = 2, WindowDuration = 60000000000\<rparr> OpReset) \<and>
   Requests
     (run_ops \<lparr>Requests = Map.empty, MaxRequests = 2, WindowDuration = 60000000000\<rparr>
        [OpAllow ''10.0.0.1'', OpAllow ''10.0.0.1'', OpAllow ''10.0.0.1'', OpRemaining ''10.0.0.1''])
     ''10.0.0.1'' = Some 2 \<and>
   1 \<le> sint (2 :: go_int) \<and>
   sint (2 :: go_int)
     \<le> sint (MaxRequests
         (run_ops \<lparr>Requests = Map.empty, MaxRequests = 2, WindowDuration = 60000000000\<rparr>
            [OpAllow ''10.0.0.1'', OpAllow ''10.0.0.1'', OpAllow ''10.0.0.1'', OpRemaining ''10.0.0.1'']))"
proof -
  have inv: "counts_in_range \<lparr>Requests = [''10.0.0.1'' \<mapsto> 1], MaxRequests = 2, WindowDuration = 60000000000\<rparr>"
    by (simp add: counts_in_range_def)
  have new: "NewRateLimiter 2 60000000000
     = Inr \<lparr>Requests = Map.empty, MaxRequests = 2, WindowDuration = 60000000000\<rparr>"
    by (simp add: NewRateLimiter_def startResetTicker_def)
  have run: "Requests
     (run_ops \<lparr>Requests = Map.empty, MaxRequests = 2, WindowDuration = 60000000000\<rparr>
        [OpAllow ''10.0.0.1'', OpAllow ''10.0.0.1'', OpAllow ''10.0.0.1'', OpRemaining ''10.0.0.1''])
     ''10.0.0.1'' = Some 2"
    by (simp add: AllowRequest_def map_index_def Let_def)
  show ?thesis
    using inv new run
      counts_in_range_invariant
        [of 2 60000000000 "\<lparr>Requests = Map.empty, MaxRequests = 2, WindowDuration = 60000000000\<rparr>"
            "\<lparr>Requests = [''10.0.0.1'' \<mapsto> 1], MaxRequests = 2, WindowDuration = 60000000000\<rparr>"
            "''10.0.0.1''" OpReset
            "[OpAllow ''10.0.0.1'', OpAllow ''10.0.0.1'', OpAllow ''10.0.0.1'', OpRemaining ''10.0.0.1'']"
            2]
    by simp
qed

subsection \<open>Non-positive limits, the reset, and construction\<close>

lemma constructed_nonpositive_empty:
  assumes c: "NewRateLimiter m w = Inr rl0" and m: "sint m \<le> 0"
  shows "Requests (run_ops rl0 xs) ip = None"
proof (rule ccontr)
  assume "Requests (run_ops rl0 xs) ip \<noteq> None"
  then obtain v where v: "Requests (run_ops rl0 xs) ip = Some v" by blast
  have "counts_in_range (run_ops rl0 xs)" using c by (rule counts_in_range_constructed)
  with v have "1 \<le> sint v" and "sint v \<le> sint (MaxRequests (run_ops rl0 xs))"
    unfolding counts_in_range_def by blast+
  moreover have "MaxRequests (run_ops rl0 xs) = m"
    using NewRateLimiter_Inr [OF c] by simp
  ultimately show False using m by simp
qed

text \<open>
  Claim C10. A limiter constructed with \<open>MaxRequests \<le> 0\<close> rejects every request in
  every state it reaches and leaves the state unchanged, and \<open>GetRemainingRequests\<close>
  returns 0 there. The construction itself succeeds for such a limit: with a positive
  window (which the ticker needs) \<open>NewRateLimiter\<close> returns the limiter.
\<close>

theorem nonpositive_limit_rejects_everything:
  "(sint m \<le> 0 \<and> 0 < sint w \<longrightarrow>
      NewRateLimiter m w = Inr \<lparr>Requests = Map.empty, MaxRequests = m, WindowDuration = w\<rparr>) \<and>
   (NewRateLimiter m w = Inr rl0 \<and> sint m \<le> 0 \<longrightarrow>
      AllowRequest (run_ops rl0 xs) ip = (False, run_ops rl0 xs) \<and>
      GetRemainingRequests (run_ops rl0 xs) ip = 0)"
proof (intro conjI impI)
  assume "sint m \<le> 0 \<and> 0 < sint w"
  then show "NewRateLimiter m w = Inr \<lparr>Requests = Map.empty, MaxRequests = m, WindowDuration = w\<rparr>"
    by (simp add: NewRateLimiter_positive_window)
next
  assume h: "NewRateLimiter m w = Inr rl0 \<and> sint m \<le> 0"
  then have none: "Requests (run_ops rl0 xs) ip = None"
    by (blast intro: constructed_nonpositive_empty)
  have max: "MaxRequests (run_ops rl0 xs) = m"
    using h NewRateLimiter_Inr [of m w rl0] by simp
  from none have zero: "map_index (Requests (run_ops rl0 xs)) ip = 0"
    by (simp add: map_index_def)
  with h max show "AllowRequest (run_ops rl0 xs) ip = (False, run_ops rl0 xs)"
    by (simp add: AllowRequest_reject)
  from h have "sint m < 0 \<or> m = 0"
    by (auto simp: order_le_less signed_eq_0_iff)
  with zero max show "GetRemainingRequests (run_ops rl0 xs) ip = 0"
    by (auto simp: GetRemainingRequests_def)
qed

theorem nonpositive_limit_rejects_everything_witness:
  "sint (- 3 :: go_int) \<le> 0 \<and> 0 < sint (60000000000 :: Duration) \<and>
   NewRateLimiter (- 3) 60000000000
     = Inr \<lparr>Requests = Map.empty, MaxRequests = - 3, WindowDuration = 60000000000\<rparr> \<and>
   fst (AllowRequest
     (run_ops \<lparr>Requests = Map.empty, MaxRequests = - 3, WindowDuration = 60000000000\<rparr>
        [OpAllow ''10.0.0.1'', OpReset, OpAllow ''10.0.0.2''])
     ''10.0.0.1'') = False \<and>
   GetRemainingRequests
     (run_ops \<lparr>Requests = Map.empty, MaxRequests = - 3, WindowDuration = 60000000000\<rparr>
        [OpAllow ''10.0.0.1'', OpReset, OpAllow ''10.0.0.2''])
     ''10.0.0.1'' = 0"
proof -
  have h: "sint (- 3 :: go_int) \<le> 0 \<and> 0 < sint (60000000000 :: Duration)" by simp
  have new: "NewRateLimiter (- 3) 60000000000
     = Inr \<lparr>Requests = Map.empty, MaxRequests = - 3, WindowDuration = 60000000000\<rparr>"
    by (simp add: NewRateLimiter_def startResetTicker_def)
  show ?thesis
    using h new
      nonpositive_limit_rejects_everything
        [of "- 3" 60000000000 "\<lparr>Requests = Map.empty, MaxRequests = - 3, WindowDuration = 60000000000\<rparr>"
            "[OpAllow ''10.0.0.1'', OpReset, OpAllow ''10.0.0.2'']" "''10.0.0.1''"]
    by simp
qed

text \<open>
  Claim C3 as stated lets \<open>GetRemainingRequests\<close> return the limit after a reset for
  every constructed limiter. A limiter constructed with limit \<open>-1\<close> refutes it: after
  the reset the call returns 0, because of the guard \<^verbatim>\<open>if remaining < 0 { return 0 }\<close>.
\<close>

theorem reset_remaining_counterexample:
  "\<not> isl (NewRateLimiter (- 1) 60000000000) \<and>
   MaxRequests (projr (NewRateLimiter (- 1) 60000000000)) = - 1 \<and>
   GetRemainingRequests (resetTick (projr (NewRateLimiter (- 1) 60000000000))) ''10.0.0.1'' = 0 \<and>
   GetRemainingRequests (resetTick (projr (NewRateLimiter (- 1) 60000000000))) ''10.0.0.1''
     \<noteq> MaxRequests (projr (NewRateLimiter (- 1) 60000000000))"
  by (simp add: NewRateLimiter_def startResetTicker_def resetTick_def GetRemainingRequests_def
      map_index_def)

text \<open>
  Claim C3, amended. The reset replaces the whole table by the empty table in one step
  and changes nothing else. In every state and for every identifier, also one whose
  count had reached the limit, after the reset \<open>GetRemainingRequests\<close> returns
  \<open>max 0 limit\<close>, which is the limit whenever the limit is not negative; and when the
  limit is positive the next \<open>AllowRequest\<close> returns true.
\<close>

theorem resetTick_fresh_window:
  "Requests (resetTick rl) = Map.empty \<and>
   MaxRequests (resetTick rl) = MaxRequests rl \<and>
   WindowDuration (resetTick rl) = WindowDuration rl \<and>
   sint (GetRemainingRequests (resetTick rl) ip) = max 0 (sint (MaxRequests rl)) \<and>
   (0 \<le> sint (MaxRequests rl) \<longrightarrow> GetRemainingRequests (resetTick rl) ip = MaxRequests rl) \<and>
   (0 < sint (MaxRequests rl) \<longrightarrow> fst (AllowRequest (resetTick rl) ip) = True)"
  by (simp add: resetTick_def GetRemainingRequests_def AllowRequest_def map_index_def max_def)

theorem resetTick_fresh_window_witness:
  "0 < sint (MaxRequests \<lparr>Requests = [''10.0.0.1'' \<mapsto> 5], MaxRequests = 5, WindowDuration = 60000000000\<rparr>) \<and>
   fst (AllowRequest \<lparr>Requests = [''10.0.0.1'' \<mapsto> 5], MaxRequests = 5, WindowDuration = 60000000000\<rparr> ''10.0.0.1'')
     = False \<and>
   GetRemainingRequests
     (resetTick \<lparr>Requests = [''10.0.0.1'' \<mapsto> 5], MaxRequests = 5, WindowDuration = 60000000000\<rparr>) ''10.0.0.1'' = 5 \<and>
   fst (AllowRequest
     (resetTick \<lparr>Requests = [''10.0.0.1'' \<mapsto> 5], MaxRequests = 5, WindowDuration = 60000000000\<rparr>) ''10.0.0.1'')
     = True"
  using resetTick_fresh_window
    [of "\<lparr>Requests = [''10.0.0.1'' \<mapsto> 5], MaxRequests = 5, WindowDuration = 60000000000\<rparr>" "''10.0.0.1''"]
  by (simp add: AllowRequest_def map_index_def)

text \<open>
  Claim C6 as stated makes \<open>NewRateLimiter\<close> fail for every non-positive limit. With a
  window of one minute, the limits 0 and \<open>-5\<close> are accepted and a limiter is returned.
\<close>

theorem NewRateLimiter_accepts_nonpositive_limit_counterexample:
  "\<not> isl (NewRateLimiter 0 60000000000) \<and>
   MaxRequests (projr (NewRateLimiter 0 60000000000)) = 0 \<and>
   \<not> isl (NewRateLimiter (- 5) 60000000000) \<and>
   MaxRequests (projr (NewRateLimiter (- 5) 60000000000)) = - 5"
  by (simp add: NewRateLimiter_def startResetTicker_def)

text \<open>
  Claim C6, amended. \<open>NewRateLimiter\<close> fails at construction exactly when the window
  is not positive: \<^verbatim>\<open>time.NewTicker\<close> panics. It never inspects \<open>maxRequests\<close>: with a
  positive window and any limit it returns a limiter with an empty table and the given
  parameters.
\<close>

theorem NewRateLimiter_fails_iff_window_nonpositive:
  "(sint w \<le> 0 \<longrightarrow> NewRateLimiter m w = Inl (Panic ''non-positive interval for NewTicker'')) \<and>
   (0 < sint w \<longrightarrow>
      NewRateLimiter m w = Inr \<lparr>Requests = Map.empty, MaxRequests = m, WindowDuration = w\<rparr>)"
  by (simp add: NewRateLimiter_def startResetTicker_def)

theorem NewRateLimiter_fails_iff_window_nonpositive_witness:
  "sint (0 :: Duration) \<le> 0 \<and> isl (NewRateLimiter 5 0) \<and>
   sint (- 1 :: Duration) \<le> 0 \<and> isl (NewRateLimiter 5 (- 1)) \<and>
   0 < sint (1 :: Duration) \<and> \<not> isl (NewRateLimiter (- 5) 1) \<and>
   MaxRequests (projr (NewRateLimiter (- 5) 1)) = - 5"
  using NewRateLimiter_fails_iff_window_nonpositive [of 0 5]
    NewRateLimiter_fails_iff_window_nonpositive [of "- 1" 5]
    NewRateLimiter_fails_iff_window_nonpositive [of 1 "- 5"]
  by simp

section \<open>Properties of the admission gate\<close>

subsection \<open>The client address\<close>

lemma strings_Split_not_Nil: "strings_Split s sep \<noteq> []"
  by (induction s) (auto split: list.splits)

lemma strings_Split_first: "strings_Split s sep ! 0 = takeWhile (\<lambda>c. c \<noteq> sep) s"
proof (induction s)
  case Nil
  show ?case by simp
next
  case (Cons c cs)
  then show ?case
    using strings_Split_not_Nil [of cs sep]
    by (cases "strings_Split cs sep") auto
qed

lemma LastIndex_below_none:
  "n \<le> length s \<Longrightarrow> (LastIndex_below s c n = - 1) = (c \<notin> set (take n s))"
proof (induction n)
  case 0
  show ?case by simp
next
  case (Suc n)
  then show ?case
    by (auto simp: take_Suc_conv_app_nth)
qed

lemma LastIndex_below_found:
  "n \<le> length s \<Longrightarrow> LastIndex_below s c n \<noteq> - 1 \<Longrightarrow>
   \<exists>i < n. LastIndex_below s c n = int i \<and> s ! i = c \<and> (\<forall>j. i < j \<and> j < n \<longrightarrow> s ! j \<noteq> c)"
proof (induction n)
  case 0
  then show ?case by simp
next
  case (Suc n)
  show ?case
  proof (cases "s ! n = c")
    case True
    then show ?thesis by auto
  next
    case False
    with Suc.prems have "LastIndex_below s c n \<noteq> - 1" and "n \<le> length s" by simp_all
    with Suc.IH obtain i where i: "i < n" "LastIndex_below s c n = int i" "s ! i = c"
      "\<forall>j. i < j \<and> j < n \<longrightarrow> s ! j \<noteq> c"
      by blast
    have "\<forall>j. i < j \<and> j < Suc n \<longrightarrow> s ! j \<noteq> c"
      using i(4) False by (auto simp: less_Suc_eq)
    with i False show ?thesis
      by (intro exI [of _ i]) simp
  qed
qed

lemma strings_LastIndex_none: "(strings_LastIndex s c = - 1) = (c \<notin> set s)"
  using LastIndex_below_none [of "length s" s c] by (simp add: strings_LastIndex_def)

lemma strings_LastIndex_split:
  assumes "c \<in> set s"
  shows "\<exists>rest. s = take (nat (strings_LastIndex s c)) s @ c # rest \<and> c \<notin> set rest"
proof -
  from assms have "LastIndex_below s c (length s) \<noteq> - 1"
    using strings_LastIndex_none [of s c] by (simp add: strings_LastIndex_def)
  from LastIndex_below_found [OF order_refl this]
  obtain i where i: "i < length s" "LastIndex_below s c (length s) = int i" "s ! i = c"
    "\<forall>j. i < j \<and> j < length s \<longrightarrow> s ! j \<noteq> c"
    by blast
  have "s = take i s @ s ! i # drop (Suc i) s"
    using i(1) by (rule id_take_nth_drop)
  moreover have "c \<notin> set (drop (Suc i) s)"
  proof
    assume "c \<in> set (drop (Suc i) s)"
    then obtain k where "k < length (drop (Suc i) s)" "drop (Suc i) s ! k = c"
      by (auto simp: in_set_conv_nth)
    then have "Suc i + k < length s" "s ! (Suc i + k) = c" by auto
    with i(4) show False by auto
  qed
  ultimately show ?thesis
    using i(2,3) by (intro exI [of _ "drop (Suc i) s"]) (simp add: strings_LastIndex_def)
qed

text \<open>
  Claim C8. \<open>getClientIP\<close> returns the first comma-separated entry of the
  \<^verbatim>\<open>X-Forwarded-For\<close> header, trimmed of white space, when that header is not empty;
  otherwise the trimmed value of the \<^verbatim>\<open>X-Real-IP\<close> header when that one is not empty;
  otherwise \<open>RemoteAddr\<close> without its last colon and what follows it, and \<open>RemoteAddr\<close>
  itself when it holds no colon. The three requests of the specification resolve to
  \<^verbatim>\<open>1.2.3.4\<close>, \<^verbatim>\<open>9.8.7.6\<close> and \<^verbatim>\<open>10.0.0.1\<close>. (The server stores the header
  \<^verbatim>\<open>X-Real-IP\<close> under its canonical key \<^verbatim>\<open>X-Real-Ip\<close>, where \<open>Header_Get\<close> looks it up.)
\<close>

theorem getClientIP_resolution:
  "(Header_Get (Header r) ''X-Forwarded-For'' \<noteq> [] \<longrightarrow>
      getClientIP r
        = strings_TrimSpace
            (takeWhile (\<lambda>c. c \<noteq> CHR '','') (Header_Get (Header r) ''X-Forwarded-For''))) \<and>
   (Header_Get (Header r) ''X-Forwarded-For'' = [] \<and> Header_Get (Header r) ''X-Real-IP'' \<noteq> [] \<longrightarrow>
      getClientIP r = strings_TrimSpace (Header_Get (Header r) ''X-Real-IP'')) \<and>
   (Header_Get (Header r) ''X-Forwarded-For'' = [] \<and> Header_Get (Header r) ''X-Real-IP'' = [] \<and>
    CHR '':'' \<in> set (RemoteAddr r) \<longrightarrow>
      (\<exists>rest. RemoteAddr r = getClientIP r @ CHR '':'' # rest \<and> CHR '':'' \<notin> set rest)) \<and>
   (Header_Get (Header r) ''X-Forwarded-For'' = [] \<and> Header_Get (Header r) ''X-Real-IP'' = [] \<and>
    CHR '':'' \<notin> set (RemoteAddr r) \<longrightarrow>
      getClientIP r = RemoteAddr r) \<and>
   getClientIP \<lparr>Method = ''GET'', Header = [''X-Forwarded-For'' \<mapsto> [''1.2.3.4, 5.6.7.8'']],
                RemoteAddr = ''10.0.0.1:54321''\<rparr> = ''1.2.3.4'' \<and>
   getClientIP \<lparr>Method = ''GET'', Header = [''X-Real-Ip'' \<mapsto> [''9.8.7.6'']],
                RemoteAddr = ''10.0.0.1:54321''\<rparr> = ''9.8.7.6'' \<and>
   getClientIP \<lparr>Method = ''GET'', Header = Map.empty, RemoteAddr = ''10.0.0.1:54321''\<rparr>
     = ''10.0.0.1''"
proof (intro conjI impI)
  assume "Header_Get (Header r) ''X-Forwarded-For'' \<noteq> []"
  then show "getClientIP r
        = strings_TrimSpace
            (takeWhile (\<lambda>c. c \<noteq> CHR '','') (Header_Get (Header r) ''X-Forwarded-For''))"
    by (simp add: getClientIP_def Let_def strings_Split_not_Nil strings_Split_first)
next
  assume "Header_Get (Header r) ''X-Forwarded-For'' = [] \<and> Header_Get (Header r) ''X-Real-IP'' \<noteq> []"
  then show "getClientIP r = strings_TrimSpace (Header_Get (Header r) ''X-Real-IP'')"
    by (simp add: getClientIP_def Let_def)
next
  assume h: "Header_Get (Header r) ''X-Forwarded-For'' = [] \<and> Header_Get (Header r) ''X-Real-IP'' = [] \<and>
    CHR '':'' \<in> set (RemoteAddr r)"
  then have "strings_LastIndex (RemoteAddr r) (CHR '':'') \<noteq> - 1"
    by (simp add: strings_LastIndex_none)
  with h have "getClientIP r
      = take (nat (strings_LastIndex (RemoteAddr r) (CHR '':''))) (RemoteAddr r)"
    by (simp add: getClientIP_def Let_def)
  with strings_LastIndex_split [of "CHR '':''" "RemoteAddr r"] h
  show "\<exists>rest. RemoteAddr r = getClientIP r @ CHR '':'' # rest \<and> CHR '':'' \<notin> set rest"
    by simp
next
  assume h: "Header_Get (Header r) ''X-Forwarded-For'' = [] \<and> Header_Get (Header r) ''X-Real-IP'' = [] \<and>
    CHR '':'' \<notin> set (RemoteAddr r)"
  then have "strings_LastIndex (RemoteAddr r) (CHR '':'') = - 1"
    by (simp add: strings_LastIndex_none)
  with h show "getClientIP r = RemoteAddr r"
    by (simp add: getClientIP_def Let_def)
next
  show "getClientIP \<lparr>Method = ''GET'', Header = [''X-Forwarded-For'' \<mapsto> [''1.2.3.4, 5.6.7.8'']],
                RemoteAddr = ''10.0.0.1:54321''\<rparr> = ''1.2.3.4''"
    by code_simp
  show "getClientIP \<lparr>Method = ''GET'', Header = [''X-Real-Ip'' \<mapsto> [''9.8.7.6'']],
                RemoteAddr = ''10.0.0.1:54321''\<rparr> = ''9.8.7.6''"
    by code_simp
  show "getClientIP \<lparr>Method = ''GET'', Header = Map.empty, RemoteAddr = ''10.0.0.1:54321''\<rparr>
     = ''10.0.0.1''"
    by code_simp
qed

theorem getClientIP_resolution_witness:
  "Header_Get (Header \<lparr>Method = ''GET'', Header = [''X-Forwarded-For'' \<mapsto> ['' 1.2.3.4 , 5.6.7.8'']],
                       RemoteAddr = ''10.0.0.1:54321''\<rparr>) ''X-Forwarded-For'' \<noteq> [] \<and>
   getClientIP \<lparr>Method = ''GET'', Header = [''X-Forwarded-For'' \<mapsto> ['' 1.2.3.4 , 5.6.7.8'']],
                RemoteAddr = ''10.0.0.1:54321''\<rparr> = ''1.2.3.4'' \<and>
   Header_Get (Header \<lparr>Method = ''GET'', Header = [''X-Real-Ip'' \<mapsto> ['' 9.8.7.6'']],
                       RemoteAddr = ''10.0.0.1:54321''\<rparr>) ''X-Forwarded-For'' = [] \<and>
   Header_Get (Header \<lparr>Method = ''GET'', Header = [''X-Real-Ip'' \<mapsto> ['' 9.8.7.6'']],
                       RemoteAddr = ''10.0.0.1:54321''\<rparr>) ''X-Real-IP'' \<noteq> [] \<and>
   getClientIP \<lparr>Method = ''GET'', Header = [''X-Real-Ip'' \<mapsto> ['' 9.8.7.6'']],
                RemoteAddr = ''10.0.0.1:54321''\<rparr> = ''9.8.7.6'' \<and>
   Header_Get (Header \<lparr>Method = ''GET'', Header = Map.empty, RemoteAddr = ''[::1]:8080''\<rparr>)
     ''X-Forwarded-For'' = [] \<and>
   Header_Get (Header \<lparr>Method = ''GET'', Header = Map.empty, RemoteAddr = ''[::1]:8080''\<rparr>)
     ''X-Real-IP'' = [] \<and>
   CHR '':'' \<in> set (RemoteAddr \<lparr>Method = ''GET'', Header = Map.empty, RemoteAddr = ''[::1]:8080''\<rparr>) \<and>
   getClientIP \<lparr>Method = ''GET'', Header = Map.empty, RemoteAddr = ''[::1]:8080''\<rparr> = ''[::1]'' \<and>
   Header_Get (Header \<lparr>Method = ''GET'', Header = Map.empty, RemoteAddr = ''pipe''\<rparr>)
     ''X-Forwarded-For'' = [] \<and>
   Header_Get (Header \<lparr>Method = ''GET'', Header = Map.empty, RemoteAddr = ''pipe''\<rparr>)
     ''X-Real-IP'' = [] \<and>
   CHR '':'' \<notin> set (RemoteAddr \<lparr>Method = ''GET'', Header = Map.empty, RemoteAddr = ''pipe''\<rparr>) \<and>
   getClientIP \<lparr>Method = ''GET'', Header = Map.empty, RemoteAddr = ''pipe''\<rparr> = ''pipe''"
proof -
  have f: "Header_Get (Header \<lparr>Method = ''GET'', Header = [''X-Forwarded-For'' \<mapsto> ['' 1.2.3.4 , 5.6.7.8'']],
                       RemoteAddr = ''10.0.0.1:54321''\<rparr>) ''X-Forwarded-For'' = '' 1.2.3.4 , 5.6.7.8''"
    by code_simp
  have t1: "strings_TrimSpace (takeWhile (\<lambda>c. c \<noteq> CHR '','') '' 1.2.3.4 , 5.6.7.8'') = ''1.2.3.4''"
    by code_simp
  have r1: "Header_Get (Header \<lparr>Method = ''GET'', Header = [''X-Real-Ip'' \<mapsto> ['' 9.8.7.6'']],
                       RemoteAddr = ''10.0.0.1:54321''\<rparr>) ''X-Forwarded-For'' = []"
    by code_simp
  have r2: "Header_Get (Header \<lparr>Method = ''GET'', Header = [''X-Real-Ip'' \<mapsto> ['' 9.8.7.6'']],
                       RemoteAddr = ''10.0.0.1:54321''\<rparr>) ''X-Real-IP'' = '' 9.8.7.6''"
    by code_simp
  have t2: "strings_TrimSpace '' 9.8.7.6'' = ''9.8.7.6''"
    by code_simp
  have e: "Header_Get Map.empty ''X-Forwarded-For'' = []" "Header_Get Map.empty ''X-Real-IP'' = []"
    by (simp_all add: Header_Get_def)
  have a3: "getClientIP \<lparr>Method = ''GET'', Header = Map.empty, RemoteAddr = ''[::1]:8080''\<rparr> = ''[::1]''"
    by code_simp
  show ?thesis
    using f t1 r1 r2 t2 e a3
      getClientIP_resolution
        [of "\<lparr>Method = ''GET'', Header = [''X-Forwarded-For'' \<mapsto> ['' 1.2.3.4 , 5.6.7.8'']],
               RemoteAddr = ''10.0.0.1:54321''\<rparr>"]
      getClientIP_resolution
        [of "\<lparr>Method = ''GET'', Header = [''X-Real-Ip'' \<mapsto> ['' 9.8.7.6'']],
               RemoteAddr = ''10.0.0.1:54321''\<rparr>"]
      getClientIP_resolution
        [of "\<lparr>Method = ''GET'', Header = Map.empty, RemoteAddr = ''pipe''\<rparr>"]
    by simp
qed

subsection \<open>The gate\<close>

text \<open>
  Claim C7. When \<open>AllowRequest\<close> accepts the client address of the request, the gate
  hands the writer and the request, both as it received them, to the continuation and
  returns what the continuation produces; a continuation that records its invocations
  records exactly this one. When \<open>AllowRequest\<close> rejects, the result does not depend on
  the continuation, which is not invoked: the gate sets the content type
  \<^verbatim>\<open>application/json\<close>, writes the status 429, encodes the object with the single entry
  \<^verbatim>\<open>"error": "Rate limit exceeded"\<close>, and leaves the limiter and the state of the
  continuation as they were.
\<close>

theorem RateLimitMiddleware_gate:
  "(fst (AllowRequest limiter (getClientIP r)) \<longrightarrow>
      RateLimitMiddleware next w r (limiter, s)
        = (fst (next w r s), (snd (AllowRequest limiter (getClientIP r)), snd (next w r s))) \<and>
      snd (snd (RateLimitMiddleware recording_handler w r (limiter, calls))) = calls @ [(w, r)]) \<and>
   (\<not> fst (AllowRequest limiter (getClientIP r)) \<longrightarrow>
      RateLimitMiddleware next w r (limiter, s)
        = (w @ [Header_Set ''Content-Type'' ''application/json'', WriteHeader 429,
                Encode [(''error'', ''Rate limit exceeded'')]],
           (limiter, s)) \<and>
      snd (snd (RateLimitMiddleware recording_handler w r (limiter, calls))) = calls)"
proof (intro conjI impI)
  assume a: "fst (AllowRequest limiter (getClientIP r))"
  then show "RateLimitMiddleware next w r (limiter, s)
        = (fst (next w r s), (snd (AllowRequest limiter (getClientIP r)), snd (next w r s)))"
    by (simp add: RateLimitMiddleware_def Let_def case_prod_unfold)
  from a show "snd (snd (RateLimitMiddleware recording_handler w r (limiter, calls))) = calls @ [(w, r)]"
    by (simp add: RateLimitMiddleware_def recording_handler_def Let_def case_prod_unfold)
next
  assume a: "\<not> fst (AllowRequest limiter (getClientIP r))"
  then have same: "snd (AllowRequest limiter (getClientIP r)) = limiter"
    by (simp add: AllowRequest_def Let_def split: if_splits)
  from a same show "RateLimitMiddleware next w r (limiter, s)
        = (w @ [Header_Set ''Content-Type'' ''application/json'', WriteHeader 429,
                Encode [(''error'', ''Rate limit exceeded'')]],
           (limiter, s))"
    by (auto simp: RateLimitMiddleware_def StatusTooManyRequests_def Let_def case_prod_unfold)
  from a show "snd (snd (RateLimitMiddleware recording_handler w r (limiter, calls))) = calls"
    by (simp add: RateLimitMiddleware_def recording_handler_def Let_def case_prod_unfold)
qed

theorem RateLimitMiddleware_gate_witness:
  "fst (AllowRequest \<lparr>Requests = Map.empty, MaxRequests = 1, WindowDuration = 60000000000\<rparr>
         (getClientIP \<lparr>Method = ''GET'', Header = Map.empty, RemoteAddr = ''10.0.0.1:54321''\<rparr>)) \<and>
   snd (snd (RateLimitMiddleware recording_handler []
               \<lparr>Method = ''GET'', Header = Map.empty, RemoteAddr = ''10.0.0.1:54321''\<rparr>
               (\<lparr>Requests = Map.empty, MaxRequests = 1, WindowDuration = 60000000000\<rparr>, [])))
     = [([], \<lparr>Method = ''GET'', Header = Map.empty, RemoteAddr = ''10.0.0.1:54321''\<rparr>)] \<and>
   \<not> fst (AllowRequest \<lparr>Requests = [''10.0.0.1'' \<mapsto> 1], MaxRequests = 1, WindowDuration = 60000000000\<rparr>
         (getClientIP \<lparr>Method = ''GET'', Header = Map.empty, RemoteAddr = ''10.0.0.1:54321''\<rparr>)) \<and>
   fst (RateLimitMiddleware recording_handler []
          \<lparr>Method = ''GET'', Header = Map.empty, RemoteAddr = ''10.0.0.1:54321''\<rparr>
          (\<lparr>Requests = [''10.0.0.1'' \<mapsto> 1], MaxRequests = 1, WindowDuration = 60000000000\<rparr>, []))
     = [Header_Set ''Content-Type'' ''application/json'', WriteHeader 429,
        Encode [(''error'', ''Rate limit exceeded'')]] \<and>
   snd (snd (RateLimitMiddleware recording_handler []
               \<lparr>Method = ''GET'', Header = Map.empty, RemoteAddr = ''10.0.0.1:54321''\<rparr>
               (\<lparr>Requests = [''10.0.0.1'' \<mapsto> 1], MaxRequests = 1, WindowDuration = 60000000000\<rparr>, [])))
     = []"
proof -
  have ip: "getClientIP \<lparr>Method = ''GET'', Header = Map.empty, RemoteAddr = ''10.0.0.1:54321''\<rparr>
              = ''10.0.0.1''"
    by code_simp
  have yes: "fst (AllowRequest \<lparr>Requests = Map.empty, MaxRequests = 1, WindowDuration = 60000000000\<rparr>
         (getClientIP \<lparr>Method = ''GET'', Header = Map.empty, RemoteAddr = ''10.0.0.1:54321''\<rparr>))"
    unfolding ip by (simp add: AllowRequest_def map_index_def)
  have no: "\<not> fst (AllowRequest \<lparr>Requests = [''10.0.0.1'' \<mapsto> 1], MaxRequests = 1, WindowDuration = 60000000000\<rparr>
         (getClientIP \<lparr>Method = ''GET'', Header = Map.empty, RemoteAddr = ''10.0.0.1:54321''\<rparr>))"
    unfolding ip by (simp add: AllowRequest_def map_index_def)
  show ?thesis
    using yes no
      RateLimitMiddleware_gate
        [of "\<lparr>Requests = Map.empty, MaxRequests = 1, WindowDuration = 60000000000\<rparr>"
            "\<lparr>Method = ''GET'', Header = Map.empty, RemoteAddr = ''10.0.0.1:54321''\<rparr>"
            recording_handler "[]" "[]" "[]"]
      RateLimitMiddleware_gate
        [of "\<lparr>Requests = [''10.0.0.1'' \<mapsto> 1], MaxRequests = 1, WindowDuration = 60000000000\<rparr>"
            "\<lparr>Method = ''GET'', Header = Map.empty, RemoteAddr = ''10.0.0.1:54321''\<rparr>"
            recording_handler "[]" "[]" "[]"]
    by (simp add: recording_handler_def)
qed

section \<open>Properties of the concurrent workers\<close>

subsection \<open>The invariant\<close>

lemma filter_update_count:
  "i < length ws \<Longrightarrow>
   int (length (filter P (ws[i := x])))
     = int (length (filter P ws)) - (if P (ws ! i) then 1 else 0) + (if P x then 1 else 0)"
proof (induction ws arbitrary: i)
  case Nil
  then show ?case by simp
next
  case (Cons a ws)
  show ?case
  proof (cases i)
    case 0
    then show ?thesis by simp
  next
    case (Suc k)
    with Cons.prems have "k < length ws" by simp
    from Cons.IH [OF this] Suc show ?thesis by (auto split: if_splits)
  qed
qed

lemma run_schedule_append:
  "run_schedule ip (xs @ ys) sys = run_schedule ip ys (run_schedule ip xs sys)"
  by (induction xs arbitrary: sys) simp_all

lemma worker_step_length [simp]: "length (workers (worker_step ip i sys)) = length (workers sys)"
  by (simp add: worker_step_def split: pc.splits)

lemma worker_step_MaxRequests [simp]:
  "MaxRequests (shared_limiter (worker_step ip i sys)) = MaxRequests (shared_limiter sys)"
  by (simp add: worker_step_def split: pc.splits)

lemma run_schedule_length [simp]:
  "length (workers (run_schedule ip schedule sys)) = length (workers sys)"
  by (induction schedule arbitrary: sys) simp_all

lemma run_schedule_MaxRequests [simp]:
  "MaxRequests (shared_limiter (run_schedule ip schedule sys)) = MaxRequests (shared_limiter sys)"
  by (induction schedule arbitrary: sys) simp_all

lemma workers_inv_start:
  assumes "map_index (Requests rl) ip = 0" and "0 \<le> sint (MaxRequests rl)"
  shows "workers_inv ip (start_workers rl n)"
  using assms by (auto simp: workers_inv_def start_workers_def)

lemma not_critical_cases:
  "\<not> in_critical p \<Longrightarrow> p \<noteq> AtCheck v \<and> p \<noteq> AtWrite v \<and> p \<noteq> AtRead \<and> p \<noteq> AtUnlock b"
  by (cases p) simp_all

lemma workers_inv_update:
  assumes i: "i < length (workers sys)"
    and others: "\<forall>j < length (workers sys). j \<noteq> i \<longrightarrow> \<not> in_critical (workers sys ! j)"
    and ws': "workers sys' = (workers sys)[i := x]"
    and held: "mutex_held sys' = in_critical x"
    and count: "sint (map_index (Requests (shared_limiter sys')) ip)
                  = int (length (filter accepted ((workers sys)[i := x])))"
    and loc: "\<forall>v. (x = AtCheck v \<longrightarrow> v = map_index (Requests (shared_limiter sys')) ip) \<and>
                  (x = AtWrite v \<longrightarrow> v = map_index (Requests (shared_limiter sys')) ip \<and>
                     sint v < sint (MaxRequests (shared_limiter sys')))"
    and bound: "sint (map_index (Requests (shared_limiter sys')) ip) \<le> sint (MaxRequests (shared_limiter sys'))"
    and rej: "rejected x \<or> (\<exists>j < length (workers sys). j \<noteq> i \<and> rejected (workers sys ! j)) \<Longrightarrow>
                sint (MaxRequests (shared_limiter sys')) \<le> sint (map_index (Requests (shared_limiter sys')) ip)"
  shows "workers_inv ip sys'"
proof -
  have len: "length (workers sys') = length (workers sys)" by (simp add: ws')
  have nth: "workers sys' ! j = (if j = i then x else workers sys ! j)"
    if "j < length (workers sys)" for j
    using that by (simp add: ws' nth_list_update)
  have only: "j = i" if "j < length (workers sys)" "in_critical (workers sys' ! j)" for j
    using that others nth [of j] by (cases "j = i") auto
  have c1: "\<forall>a < length (workers sys'). \<forall>b < length (workers sys').
         in_critical (workers sys' ! a) \<and> in_critical (workers sys' ! b) \<longrightarrow> a = b"
    using only len by auto
  have c2: "mutex_held sys' \<longleftrightarrow> (\<exists>j < length (workers sys'). in_critical (workers sys' ! j))"
  proof
    assume "mutex_held sys'"
    with held have "in_critical (workers sys' ! i)" using nth [OF i] by simp
    with i len show "\<exists>j < length (workers sys'). in_critical (workers sys' ! j)" by auto
  next
    assume "\<exists>j < length (workers sys'). in_critical (workers sys' ! j)"
    then obtain j where j: "j < length (workers sys)" "in_critical (workers sys' ! j)"
      using len by auto
    with only have "j = i" by blast
    with j nth [OF i] held show "mutex_held sys'" by simp
  qed
  have c4: "\<forall>j < length (workers sys'). \<forall>v.
         (workers sys' ! j = AtCheck v \<longrightarrow> v = map_index (Requests (shared_limiter sys')) ip) \<and>
         (workers sys' ! j = AtWrite v \<longrightarrow>
            v = map_index (Requests (shared_limiter sys')) ip \<and> sint v < sint (MaxRequests (shared_limiter sys')))"
  proof (intro allI impI)
    fix j v
    assume j: "j < length (workers sys')"
    show "(workers sys' ! j = AtCheck v \<longrightarrow> v = map_index (Requests (shared_limiter sys')) ip) \<and>
         (workers sys' ! j = AtWrite v \<longrightarrow>
            v = map_index (Requests (shared_limiter sys')) ip \<and> sint v < sint (MaxRequests (shared_limiter sys')))"
    proof (cases "j = i")
      case True
      with nth [OF i] loc show ?thesis by simp
    next
      case False
      with j len others have "\<not> in_critical (workers sys ! j)" by simp
      from not_critical_cases [OF this] nth [of j] j len False show ?thesis by simp
    qed
  qed
  have c6: "(\<exists>j < length (workers sys'). rejected (workers sys' ! j)) \<longrightarrow>
        sint (MaxRequests (shared_limiter sys')) \<le> sint (map_index (Requests (shared_limiter sys')) ip)"
  proof
    assume "\<exists>j < length (workers sys'). rejected (workers sys' ! j)"
    then obtain j where j: "j < length (workers sys)" "rejected (workers sys' ! j)"
      using len by auto
    have "rejected x \<or> (\<exists>j < length (workers sys). j \<noteq> i \<and> rejected (workers sys ! j))"
    proof (cases "j = i")
      case True
      with j nth [OF i] show ?thesis by simp
    next
      case False
      with j nth [of j] show ?thesis by auto
    qed
    then show "sint (MaxRequests (shared_limiter sys')) \<le> sint (map_index (Requests (shared_limiter sys')) ip)"
      by (rule rej)
  qed
  from count have c3: "sint (map_index (Requests (shared_limiter sys')) ip)
                  = int (length (filter accepted (workers sys')))"
    by (simp add: ws')
  show ?thesis
    unfolding workers_inv_def using c1 c2 c3 c4 bound c6 by blast
qed

lemma workers_inv_parts:
  assumes "workers_inv ip sys"
  shows "\<forall>i < length (workers sys). \<forall>j < length (workers sys).
           in_critical (workers sys ! i) \<and> in_critical (workers sys ! j) \<longrightarrow> i = j"
    and "mutex_held sys \<longleftrightarrow> (\<exists>i < length (workers sys). in_critical (workers sys ! i))"
    and "sint (map_index (Requests (shared_limiter sys)) ip) = int (length (filter accepted (workers sys)))"
    and "\<forall>i < length (workers sys). \<forall>v.
           (workers sys ! i = AtCheck v \<longrightarrow> v = map_index (Requests (shared_limiter sys)) ip) \<and>
           (workers sys ! i = AtWrite v \<longrightarrow>
              v = map_index (Requests (shared_limiter sys)) ip \<and> sint v < sint (MaxRequests (shared_limiter sys)))"
    and "sint (map_index (Requests (shared_limiter sys)) ip) \<le> sint (MaxRequests (shared_limiter sys))"
    and "(\<exists>i < length (workers sys). rejected (workers sys ! i)) \<longrightarrow>
           sint (MaxRequests (shared_limiter sys)) \<le> sint (map_index (Requests (shared_limiter sys)) ip)"
  using assms unfolding workers_inv_def by blast+

lemma critical_unique:
  assumes inv: "workers_inv ip sys" and i: "i < length (workers sys)"
    and crit: "in_critical (workers sys ! i)"
  shows "\<forall>j < length (workers sys). j \<noteq> i \<longrightarrow> \<not> in_critical (workers sys ! j)"
  using workers_inv_parts(1) [OF inv] i crit by blast

lemma inv_AtLock:
  assumes inv: "workers_inv ip sys" and i: "i < length (workers sys)"
    and pc: "workers sys ! i = AtLock" and free: "\<not> mutex_held sys"
  shows "workers_inv ip (sys\<lparr>mutex_held := True, workers := (workers sys)[i := AtRead]\<rparr>)"
proof (rule workers_inv_update [OF i, where x = AtRead])
  show "\<forall>j < length (workers sys). j \<noteq> i \<longrightarrow> \<not> in_critical (workers sys ! j)"
    using workers_inv_parts(2) [OF inv] free by blast
  show "sint (map_index (Requests (shared_limiter (sys\<lparr>mutex_held := True, workers := (workers sys)[i := AtRead]\<rparr>))) ip)
          = int (length (filter accepted ((workers sys)[i := AtRead])))"
    using filter_update_count [OF i, of accepted AtRead] pc workers_inv_parts(3) [OF inv] by simp
  show "sint (map_index (Requests (shared_limiter (sys\<lparr>mutex_held := True, workers := (workers sys)[i := AtRead]\<rparr>))) ip)
          \<le> sint (MaxRequests (shared_limiter (sys\<lparr>mutex_held := True, workers := (workers sys)[i := AtRead]\<rparr>)))"
    using workers_inv_parts(5) [OF inv] by simp
  show "sint (MaxRequests (shared_limiter (sys\<lparr>mutex_held := True, workers := (workers sys)[i := AtRead]\<rparr>)))
          \<le> sint (map_index (Requests (shared_limiter (sys\<lparr>mutex_held := True, workers := (workers sys)[i := AtRead]\<rparr>))) ip)"
    if "rejected AtRead \<or> (\<exists>j < length (workers sys). j \<noteq> i \<and> rejected (workers sys ! j))"
    using that workers_inv_parts(6) [OF inv] by auto
qed simp_all

lemma inv_AtRead:
  assumes inv: "workers_inv ip sys" and i: "i < length (workers sys)"
    and pc: "workers sys ! i = AtRead"
  shows "workers_inv ip
           (sys\<lparr>workers := (workers sys)[i := AtCheck (map_index (Requests (shared_limiter sys)) ip)]\<rparr>)"
    (is "workers_inv ip ?sys'")
proof (rule workers_inv_update [OF i, where x = "AtCheck (map_index (Requests (shared_limiter sys)) ip)"])
  show "\<forall>j < length (workers sys). j \<noteq> i \<longrightarrow> \<not> in_critical (workers sys ! j)"
    using critical_unique [OF inv i] pc by simp
  show "mutex_held ?sys' = in_critical (AtCheck (map_index (Requests (shared_limiter sys)) ip))"
    using workers_inv_parts(2) [OF inv] i pc by auto
  show "sint (map_index (Requests (shared_limiter ?sys')) ip)
          = int (length (filter accepted ((workers sys)[i := AtCheck (map_index (Requests (shared_limiter sys)) ip)])))"
    using filter_update_count [OF i, of accepted "AtCheck (map_index (Requests (shared_limiter sys)) ip)"]
      pc workers_inv_parts(3) [OF inv] by simp
  show "sint (map_index (Requests (shared_limiter ?sys')) ip) \<le> sint (MaxRequests (shared_limiter ?sys'))"
    using workers_inv_parts(5) [OF inv] by simp
  show "sint (MaxRequests (shared_limiter ?sys')) \<le> sint (map_index (Requests (shared_limiter ?sys')) ip)"
    if "rejected (AtCheck (map_index (Requests (shared_limiter sys)) ip)) \<or>
        (\<exists>j < length (workers sys). j \<noteq> i \<and> rejected (workers sys ! j))"
    using that workers_inv_parts(6) [OF inv] by auto
qed simp_all

lemma inv_AtCheck_reject:
  assumes inv: "workers_inv ip sys" and i: "i < length (workers sys)"
    and pc: "workers sys ! i = AtCheck v"
    and full: "sint (MaxRequests (shared_limiter sys)) \<le> sint v"
  shows "workers_inv ip (sys\<lparr>workers := (workers sys)[i := AtUnlock False]\<rparr>)"
    (is "workers_inv ip ?sys'")
proof (rule workers_inv_update [OF i, where x = "AtUnlock False"])
  have v: "v = map_index (Requests (shared_limiter sys)) ip"
    using workers_inv_parts(4) [OF inv] i pc by blast
  show "\<forall>j < length (workers sys). j \<noteq> i \<longrightarrow> \<not> in_critical (workers sys ! j)"
    using critical_unique [OF inv i] pc by simp
  show "mutex_held ?sys' = in_critical (AtUnlock False)"
    using workers_inv_parts(2) [OF inv] i pc by auto
  show "sint (map_index (Requests (shared_limiter ?sys')) ip)
          = int (length (filter accepted ((workers sys)[i := AtUnlock False])))"
    using filter_update_count [OF i, of accepted "AtUnlock False"]
      pc workers_inv_parts(3) [OF inv] by simp
  show "sint (map_index (Requests (shared_limiter ?sys')) ip) \<le> sint (MaxRequests (shared_limiter ?sys'))"
    using workers_inv_parts(5) [OF inv] by simp
  show "sint (MaxRequests (shared_limiter ?sys')) \<le> sint (map_index (Requests (shared_limiter ?sys')) ip)"
    if "rejected (AtUnlock False) \<or> (\<exists>j < length (workers sys). j \<noteq> i \<and> rejected (workers sys ! j))"
    using full v by simp
qed simp_all

lemma inv_AtCheck_accept:
  assumes inv: "workers_inv ip sys" and i: "i < length (workers sys)"
    and pc: "workers sys ! i = AtCheck v"
    and below: "\<not> sint (MaxRequests (shared_limiter sys)) \<le> sint v"
  shows "workers_inv ip (sys\<lparr>workers := (workers sys)[i := AtWrite v]\<rparr>)"
    (is "workers_inv ip ?sys'")
proof (rule workers_inv_update [OF i, where x = "AtWrite v"])
  have v: "v = map_index (Requests (shared_limiter sys)) ip"
    using workers_inv_parts(4) [OF inv] i pc by blast
  show "\<forall>j < length (workers sys). j \<noteq> i \<longrightarrow> \<not> in_critical (workers sys ! j)"
    using critical_unique [OF inv i] pc by simp
  show "mutex_held ?sys' = in_critical (AtWrite v)"
    using workers_inv_parts(2) [OF inv] i pc by auto
  show "sint (map_index (Requests (shared_limiter ?sys')) ip)
          = int (length (filter accepted ((workers sys)[i := AtWrite v])))"
    using filter_update_count [OF i, of accepted "AtWrite v"]
      pc workers_inv_parts(3) [OF inv] by simp
  show "sint (map_index (Requests (shared_limiter ?sys')) ip) \<le> sint (MaxRequests (shared_limiter ?sys'))"
    using workers_inv_parts(5) [OF inv] by simp
  show "\<forall>w. (AtWrite v = AtCheck w \<longrightarrow> w = map_index (Requests (shared_limiter ?sys')) ip) \<and>
            (AtWrite v = AtWrite w \<longrightarrow>
               w = map_index (Requests (shared_limiter ?sys')) ip \<and> sint w < sint (MaxRequests (shared_limiter ?sys')))"
    using v below by simp
  show "sint (MaxRequests (shared_limiter ?sys')) \<le> sint (map_index (Requests (shared_limiter ?sys')) ip)"
    if "rejected (AtWrite v) \<or> (\<exists>j < length (workers sys). j \<noteq> i \<and> rejected (workers sys ! j))"
    using that workers_inv_parts(6) [OF inv] by auto
qed simp_all

lemma inv_AtWrite:
  assumes inv: "workers_inv ip sys" and i: "i < length (workers sys)"
    and pc: "workers sys ! i = AtWrite v"
  shows "workers_inv ip
           (sys\<lparr>shared_limiter := (shared_limiter sys)\<lparr>Requests := (Requests (shared_limiter sys))(ip \<mapsto> v + 1)\<rparr>,
                workers := (workers sys)[i := AtUnlock True]\<rparr>)"
    (is "workers_inv ip ?sys'")
proof (rule workers_inv_update [OF i, where x = "AtUnlock True"])
  have v: "v = map_index (Requests (shared_limiter sys)) ip" and lt: "sint v < sint (MaxRequests (shared_limiter sys))"
    using workers_inv_parts(4) [OF inv] i pc by blast+
  have new: "map_index (Requests (shared_limiter ?sys')) ip = v + 1"
    by (simp add: map_index_def)
  have succ: "sint (v + 1) = sint v + 1"
    using lt by (rule sint_succ_below)
  show "\<forall>j < length (workers sys). j \<noteq> i \<longrightarrow> \<not> in_critical (workers sys ! j)"
    using critical_unique [OF inv i] pc by simp
  show "mutex_held ?sys' = in_critical (AtUnlock True)"
    using workers_inv_parts(2) [OF inv] i pc by auto
  show "sint (map_index (Requests (shared_limiter ?sys')) ip)
          = int (length (filter accepted ((workers sys)[i := AtUnlock True])))"
    unfolding new succ
    using filter_update_count [OF i, of accepted "AtUnlock True"]
      pc workers_inv_parts(3) [OF inv] v by simp
  show "sint (map_index (Requests (shared_limiter ?sys')) ip) \<le> sint (MaxRequests (shared_limiter ?sys'))"
    unfolding new succ using lt by simp
  show "sint (MaxRequests (shared_limiter ?sys')) \<le> sint (map_index (Requests (shared_limiter ?sys')) ip)"
    if "rejected (AtUnlock True) \<or> (\<exists>j < length (workers sys). j \<noteq> i \<and> rejected (workers sys ! j))"
  proof -
    from that have "\<exists>j < length (workers sys). rejected (workers sys ! j)" by auto
    with workers_inv_parts(6) [OF inv] v lt show ?thesis by simp
  qed
qed simp_all

lemma inv_AtUnlock:
  assumes inv: "workers_inv ip sys" and i: "i < length (workers sys)"
    and pc: "workers sys ! i = AtUnlock result"
  shows "workers_inv ip (sys\<lparr>mutex_held := False, workers := (workers sys)[i := Returned result]\<rparr>)"
    (is "workers_inv ip ?sys'")
proof (rule workers_inv_update [OF i, where x = "Returned result"])
  show "\<forall>j < length (workers sys). j \<noteq> i \<longrightarrow> \<not> in_critical (workers sys ! j)"
    using critical_unique [OF inv i] pc by simp
  show "sint (map_index (Requests (shared_limiter ?sys')) ip)
          = int (length (filter accepted ((workers sys)[i := Returned result])))"
    using filter_update_count [OF i, of accepted "Returned result"]
      pc workers_inv_parts(3) [OF inv] by simp
  show "sint (map_index (Requests (shared_limiter ?sys')) ip) \<le> sint (MaxRequests (shared_limiter ?sys'))"
    using workers_inv_parts(5) [OF inv] by simp
  show "sint (MaxRequests (shared_limiter ?sys')) \<le> sint (map_index (Requests (shared_limiter ?sys')) ip)"
    if "rejected (Returned result) \<or> (\<exists>j < length (workers sys). j \<noteq> i \<and> rejected (workers sys ! j))"
  proof -
    from that pc i have "\<exists>j < length (workers sys). rejected (workers sys ! j)" by auto
    with workers_inv_parts(6) [OF inv] show ?thesis by simp
  qed
qed simp_all

lemma workers_inv_step:
  assumes inv: "workers_inv ip sys"
  shows "workers_inv ip (worker_step ip i sys)"
proof (cases "i < length (workers sys)")
  case False
  with inv show ?thesis by (simp add: worker_step_def)
next
  case i: True
  show ?thesis
  proof (cases "workers sys ! i")
    case AtLock
    with inv i inv_AtLock [OF inv i] show ?thesis by (simp add: worker_step_def)
  next
    case AtRead
    with i inv_AtRead [OF inv i] show ?thesis by (simp add: worker_step_def)
  next
    case (AtCheck v)
    with i inv_AtCheck_reject [OF inv i, of v] inv_AtCheck_accept [OF inv i, of v]
    show ?thesis by (simp add: worker_step_def)
  next
    case (AtWrite v)
    with i inv_AtWrite [OF inv i, of v] show ?thesis by (simp add: worker_step_def)
  next
    case (AtUnlock result)
    with i inv_AtUnlock [OF inv i, of result] show ?thesis by (simp add: worker_step_def)
  next
    case (Returned result)
    with inv i show ?thesis by (simp add: worker_step_def)
  qed
qed

lemma workers_inv_run: "workers_inv ip sys \<Longrightarrow> workers_inv ip (run_schedule ip schedule sys)"
  by (induction schedule arbitrary: sys) (simp_all add: workers_inv_step)

subsection \<open>Executions in which every call has returned\<close>

lemma returned_accepted_iff:
  "has_returned p \<Longrightarrow>
     accepted p = (p = Returned True) \<and> rejected p = (p = Returned False) \<and>
     (\<not> accepted p) = rejected p"
  by (cases p) auto

lemma all_returned_counts:
  assumes "all_returned sys"
  shows "length (filter accepted (workers sys)) = returned_count True sys"
    and "length (filter rejected (workers sys)) = returned_count False sys"
    and "returned_count True sys + returned_count False sys = length (workers sys)"
proof -
  have ret: "\<forall>p \<in> set (workers sys). has_returned p"
    using assms by (simp add: all_returned_def list_all_iff)
  then have a: "filter accepted (workers sys) = filter (\<lambda>p. p = Returned True) (workers sys)"
    by (intro filter_cong) (auto simp: returned_accepted_iff)
  from ret have r: "filter rejected (workers sys) = filter (\<lambda>p. p = Returned False) (workers sys)"
    by (intro filter_cong) (auto simp: returned_accepted_iff)
  from ret have n: "filter (\<lambda>p. \<not> accepted p) (workers sys) = filter rejected (workers sys)"
    by (intro filter_cong) (use returned_accepted_iff in blast)+
  from a show "length (filter accepted (workers sys)) = returned_count True sys"
    by (simp add: returned_count_def)
  from r show "length (filter rejected (workers sys)) = returned_count False sys"
    by (simp add: returned_count_def)
  have "length (filter accepted (workers sys)) + length (filter (\<lambda>p. \<not> accepted p) (workers sys))
          = length (workers sys)"
    by (rule sum_length_filter_compl)
  with a r n show "returned_count True sys + returned_count False sys = length (workers sys)"
    by (simp add: returned_count_def)
qed

lemma rejected_exists:
  assumes "0 < length (filter rejected ws)"
  shows "\<exists>i < length ws. rejected (ws ! i)"
proof -
  from assms obtain p where "p \<in> set (filter rejected ws)"
    by (cases "filter rejected ws") auto
  then have "p \<in> set ws" "rejected p" by auto
  then show ?thesis by (auto simp: in_set_conv_nth)
qed

lemma finished_exactly_limit:
  assumes inv: "workers_inv ip sys" and fin: "all_returned sys"
    and more: "sint (MaxRequests (shared_limiter sys)) < int (length (workers sys))"
  shows "int (returned_count True sys) = sint (MaxRequests (shared_limiter sys))"
    and "sint (map_index (Requests (shared_limiter sys)) ip) = sint (MaxRequests (shared_limiter sys))"
proof -
  note parts = workers_inv_parts [OF inv]
  note counts = all_returned_counts [OF fin]
  have cnt: "sint (map_index (Requests (shared_limiter sys)) ip) = int (returned_count True sys)"
    using parts(3) counts(1) by simp
  have "0 < returned_count False sys"
  proof (rule ccontr)
    assume "\<not> 0 < returned_count False sys"
    with counts(3) have "returned_count True sys = length (workers sys)" by simp
    with cnt parts(5) more show False by simp
  qed
  then have "\<exists>i < length (workers sys). rejected (workers sys ! i)"
    using counts(2) by (intro rejected_exists) simp
  with parts(6) have "sint (MaxRequests (shared_limiter sys)) \<le> sint (map_index (Requests (shared_limiter sys)) ip)"
    by blast
  with parts(5) show "sint (map_index (Requests (shared_limiter sys)) ip) = sint (MaxRequests (shared_limiter sys))"
    by simp
  with cnt show "int (returned_count True sys) = sint (MaxRequests (shared_limiter sys))" by simp
qed

subsection \<open>Progress\<close>

lemma not_returned_not_critical: "\<not> has_returned p \<Longrightarrow> \<not> in_critical p \<Longrightarrow> p = AtLock"
  by (cases p) simp_all

lemma worker_step_critical:
  assumes i: "i < length (workers sys)" and crit: "in_critical (workers sys ! i)"
  shows "remaining_steps (workers (worker_step ip i sys) ! i) < remaining_steps (workers sys ! i)"
  using assms by (cases "workers sys ! i") (simp_all add: worker_step_def)

lemma worker_step_lock:
  assumes i: "i < length (workers sys)" and pc: "workers sys ! i = AtLock" and free: "\<not> mutex_held sys"
  shows "remaining_steps (workers (worker_step ip i sys) ! i) < remaining_steps (workers sys ! i)"
  using assms by (simp add: worker_step_def)

lemma worker_step_others:
  "j \<noteq> i \<Longrightarrow> workers (worker_step ip i sys) ! j = workers sys ! j"
  by (simp add: worker_step_def split: pc.splits)

lemma sum_list_nth_less:
  assumes "length xs = length ys" and "i < length ys"
    and "(xs ! i :: nat) < ys ! i" and "\<forall>j < length ys. j \<noteq> i \<longrightarrow> xs ! j = ys ! j"
  shows "sum_list xs < sum_list ys"
proof -
  have "xs = ys[i := xs ! i]"
    using assms by (intro nth_equalityI) (auto simp: nth_list_update)
  then have "sum_list xs = sum_list (ys[i := xs ! i])" by simp
  also have "\<dots> = sum_list ys + xs ! i - ys ! i"
    using assms(2) by (rule sum_list_update)
  also have "\<dots> < sum_list ys"
  proof -
    have "ys ! i \<le> sum_list ys"
      using assms(2) by (intro member_le_sum_list) simp_all
    with assms(3) show ?thesis by simp
  qed
  finally show ?thesis .
qed


lemma progress:
  assumes inv: "workers_inv ip sys" and open_calls: "\<not> all_returned sys"
  shows "\<exists>i < length (workers sys). steps_left (worker_step ip i sys) < steps_left sys"
proof -
  have "\<exists>i < length (workers sys).
          remaining_steps (workers (worker_step ip i sys) ! i) < remaining_steps (workers sys ! i)"
  proof (cases "mutex_held sys")
    case True
    with workers_inv_parts(2) [OF inv] obtain i
      where "i < length (workers sys)" "in_critical (workers sys ! i)" by blast
    then show ?thesis using worker_step_critical by blast
  next
    case False
    with workers_inv_parts(2) [OF inv]
    have none: "\<forall>j < length (workers sys). \<not> in_critical (workers sys ! j)" by blast
    from open_calls obtain i where i: "i < length (workers sys)" "\<not> has_returned (workers sys ! i)"
      by (auto simp: all_returned_def list_all_length)
    with none have "workers sys ! i = AtLock" by (intro not_returned_not_critical) simp_all
    with i False show ?thesis using worker_step_lock by blast
  qed
  then obtain i where i: "i < length (workers sys)"
    "remaining_steps (workers (worker_step ip i sys) ! i) < remaining_steps (workers sys ! i)"
    by blast
  have "sum_list (map remaining_steps (workers (worker_step ip i sys)))
          < sum_list (map remaining_steps (workers sys))"
    using i by (intro sum_list_nth_less [where i = i]) (simp_all add: worker_step_others)
  with i(1) show ?thesis unfolding steps_left_def by blast
qed

lemma some_schedule_finishes:
  "workers_inv ip sys \<Longrightarrow> \<exists>schedule. all_returned (run_schedule ip schedule sys)"
proof (induction "steps_left sys" arbitrary: sys rule: less_induct)
  case less
  show ?case
  proof (cases "all_returned sys")
    case True
    then have "all_returned (run_schedule ip [] sys)" by simp
    then show ?thesis by blast
  next
    case False
    from progress [OF less.prems False] obtain i
      where i: "steps_left (worker_step ip i sys) < steps_left sys" by blast
    have "workers_inv ip (worker_step ip i sys)" using less.prems by (rule workers_inv_step)
    from less.hyps [OF i this] obtain schedule
      where "all_returned (run_schedule ip schedule (worker_step ip i sys))" by blast
    then have "all_returned (run_schedule ip (i # schedule) sys)" by simp
    then show ?thesis by blast
  qed
qed

subsection \<open>Exactly as many acceptances as the limit\<close>

lemma single_worker_is_AllowRequest:
  "run_schedule ip [0, 0, 0, 0, 0] (start_workers rl 1)
     = \<lparr>shared_limiter = snd (AllowRequest rl ip), mutex_held = False,
        workers = [Returned (fst (AllowRequest rl ip))]\<rparr>"
  by (simp add: start_workers_def worker_step_def AllowRequest_def Let_def)

text \<open>
  Claim C5. Let \<open>n\<close> workers each call \<open>AllowRequest\<close> once for the same identifier,
  whose count is 0, on a limiter with limit \<open>L \<ge> 0\<close> and \<open>n > L\<close>, with no reset in
  between. Some interleaving lets every call return. In every interleaving in which
  every call has returned, exactly \<open>L\<close> calls returned true and \<open>n - L\<close> returned
  false, and the stored count is exactly \<open>L\<close>. At every moment of every interleaving
  the stored count is at most \<open>L\<close>.
\<close>

theorem concurrent_AllowRequest_exactly_limit:
  "map_index (Requests rl) ip = 0 \<Longrightarrow> 0 \<le> sint (MaxRequests rl) \<Longrightarrow>
   sint (MaxRequests rl) < int n \<Longrightarrow>
   (\<exists>s. all_returned (run_schedule ip s (start_workers rl n))) \<and>
   (all_returned (run_schedule ip schedule (start_workers rl n)) \<longrightarrow>
      int (returned_count True (run_schedule ip schedule (start_workers rl n)))
        = sint (MaxRequests rl) \<and>
      int (returned_count False (run_schedule ip schedule (start_workers rl n)))
        = int n - sint (MaxRequests rl) \<and>
      sint (map_index (Requests (shared_limiter (run_schedule ip schedule (start_workers rl n)))) ip)
        = sint (MaxRequests rl)) \<and>
   sint (map_index (Requests (shared_limiter (run_schedule ip schedule' (start_workers rl n)))) ip)
     \<le> sint (MaxRequests rl)"
proof -
  assume zero: "map_index (Requests rl) ip = 0" and nonneg: "0 \<le> sint (MaxRequests rl)"
    and more: "sint (MaxRequests rl) < int n"
  have start: "workers_inv ip (start_workers rl n)"
    using zero nonneg by (rule workers_inv_start)
  have max: "MaxRequests (shared_limiter (run_schedule ip xs (start_workers rl n))) = MaxRequests rl" for xs
    by (simp add: start_workers_def)
  have len: "length (workers (run_schedule ip xs (start_workers rl n))) = n" for xs
    by (simp add: start_workers_def)
  have inv: "workers_inv ip (run_schedule ip xs (start_workers rl n))" for xs
    using start by (rule workers_inv_run)
  have a: "\<exists>s. all_returned (run_schedule ip s (start_workers rl n))"
    using start by (rule some_schedule_finishes)
  have b: "int (returned_count True (run_schedule ip schedule (start_workers rl n)))
        = sint (MaxRequests rl) \<and>
      int (returned_count False (run_schedule ip schedule (start_workers rl n)))
        = int n - sint (MaxRequests rl) \<and>
      sint (map_index (Requests (shared_limiter (run_schedule ip schedule (start_workers rl n)))) ip)
        = sint (MaxRequests rl)"
    if fin: "all_returned (run_schedule ip schedule (start_workers rl n))"
  proof -
    let ?sys = "run_schedule ip schedule (start_workers rl n)"
    have m: "sint (MaxRequests (shared_limiter ?sys)) < int (length (workers ?sys))"
      using more by (simp only: max len)
    from finished_exactly_limit [OF inv fin m]
    have t: "int (returned_count True ?sys) = sint (MaxRequests rl)"
      and c: "sint (map_index (Requests (shared_limiter ?sys)) ip) = sint (MaxRequests rl)"
      by (simp_all only: max)
    from all_returned_counts(3) [OF fin]
    have "int (returned_count True ?sys) + int (returned_count False ?sys) = int n"
      by (simp only: len flip: of_nat_add)
    with t have "int (returned_count False ?sys) = int n - sint (MaxRequests rl)" by simp
    with t c show ?thesis by simp
  qed
  have c: "sint (map_index (Requests (shared_limiter (run_schedule ip schedule' (start_workers rl n)))) ip)
     \<le> sint (MaxRequests rl)"
    using workers_inv_parts(5) [OF inv [of schedule']] by (simp only: max)
  from a b c show ?thesis by blast
qed

theorem concurrent_AllowRequest_exactly_limit_witness:
  "map_index (Requests \<lparr>Requests = Map.empty, MaxRequests = 2, WindowDuration = 60000000000\<rparr>) ''10.0.0.1'' = 0 \<and>
   0 \<le> sint (MaxRequests \<lparr>Requests = Map.empty, MaxRequests = 2, WindowDuration = 60000000000\<rparr>) \<and>
   sint (MaxRequests \<lparr>Requests = Map.empty, MaxRequests = 2, WindowDuration = 60000000000\<rparr>) < int 3 \<and>
   all_returned
     (run_schedule ''10.0.0.1'' [0, 1, 2, 0, 1, 0, 0, 2, 0, 1, 2, 1, 1, 1, 1, 2, 2, 2, 2, 2]
        (start_workers \<lparr>Requests = Map.empty, MaxRequests = 2, WindowDuration = 60000000000\<rparr> 3)) \<and>
   int (returned_count True
     (run_schedule ''10.0.0.1'' [0, 1, 2, 0, 1, 0, 0, 2, 0, 1, 2, 1, 1, 1, 1, 2, 2, 2, 2, 2]
        (start_workers \<lparr>Requests = Map.empty, MaxRequests = 2, WindowDuration = 60000000000\<rparr> 3))) = 2 \<and>
   int (returned_count False
     (run_schedule ''10.0.0.1'' [0, 1, 2, 0, 1, 0, 0, 2, 0, 1, 2, 1, 1, 1, 1, 2, 2, 2, 2, 2]
        (start_workers \<lparr>Requests = Map.empty, MaxRequests = 2, WindowDuration = 60000000000\<rparr> 3))) = 1 \<and>
   sint (map_index (Requests (shared_limiter
     (run_schedule ''10.0.0.1'' [0, 1, 2, 0, 1, 0, 0, 2, 0, 1, 2, 1, 1, 1, 1, 2, 2, 2, 2, 2]
        (start_workers \<lparr>Requests = Map.empty, MaxRequests = 2, WindowDuration = 60000000000\<rparr> 3))))
     ''10.0.0.1'') = 2"
proof -
  have h1: "map_index (Requests \<lparr>Requests = Map.empty, MaxRequests = 2, WindowDuration = 60000000000\<rparr>) ''10.0.0.1'' = 0"
    by (simp add: map_index_def)
  have h2: "0 \<le> sint (MaxRequests \<lparr>Requests = Map.empty, MaxRequests = 2, WindowDuration = 60000000000\<rparr>)"
    by simp
  have h3: "sint (MaxRequests \<lparr>Requests = Map.empty, MaxRequests = 2, WindowDuration = 60000000000\<rparr>) < int 3"
    by simp
  have fin: "all_returned
     (run_schedule ''10.0.0.1'' [0, 1, 2, 0, 1, 0, 0, 2, 0, 1, 2, 1, 1, 1, 1, 2, 2, 2, 2, 2]
        (start_workers \<lparr>Requests = Map.empty, MaxRequests = 2, WindowDuration = 60000000000\<rparr> 3))"
    by code_simp
  from concurrent_AllowRequest_exactly_limit [OF h1 h2 h3,
      of "[0, 1, 2, 0, 1, 0, 0, 2, 0, 1, 2, 1, 1, 1, 1, 2, 2, 2, 2, 2]" "[]"] fin h1 h2 h3
  show ?thesis by simp
qed

end
